theory Spec2Isabelle
  imports Main "HOL-Library.FSet"
begin

section \<open>Rendering of integers\<close>

text \<open>
  Python renders an \<open>int\<close> inside an f-string in decimal, without leading zeros.
  \<open>str_nat\<close> is that rendering for the non-negative integers, which are the
  only ones the functions below interpolate (a loop counter that starts at 1, an index
  of \<open>enumerate\<close>, a count or a number of bytes).
\<close>

definition digit_char :: "nat \<Rightarrow> char" where
  "digit_char d = ''0123456789'' ! d"

fun str_nat :: "nat \<Rightarrow> string" where
  "str_nat n = (if n < 10 then [digit_char n] else str_nat (n div 10) @ [digit_char (n mod 10)])"

declare str_nat.simps [simp del]

lemma digit_char_inj: "a < 10 \<Longrightarrow> b < 10 \<Longrightarrow> digit_char a = digit_char b \<Longrightarrow> a = b"
proof -
  assume a: "a < 10" and b: "b < 10" and e: "digit_char a = digit_char b"
  have d: "distinct ''0123456789''" by simp
  have "length ''0123456789'' = 10" by simp
  with a b e d show ?thesis
    unfolding digit_char_def by (metis nth_eq_iff_index_eq)
qed

lemma str_nat_nonempty: "str_nat n \<noteq> []" "[] \<noteq> str_nat n"
  by (subst str_nat.simps, simp)+

lemma str_nat_inj: "str_nat a = str_nat b \<Longrightarrow> a = b"
proof (induction a arbitrary: b rule: str_nat.induct)
  case (1 a)
  show ?case
  proof (cases "a < 10")
    case True
    show ?thesis
    proof (cases "b < 10")
      case True
      with \<open>a < 10\<close> "1.prems" show ?thesis
        by (simp add: str_nat.simps[of a] str_nat.simps[of b] digit_char_inj)
    next
      case False
      with \<open>a < 10\<close> "1.prems" show ?thesis
        by (simp add: str_nat.simps[of a] str_nat.simps[of b] str_nat_nonempty)
    qed
  next
    case False
    show ?thesis
    proof (cases "b < 10")
      case True
      with False "1.prems" show ?thesis
        by (simp add: str_nat.simps[of a] str_nat.simps[of b] str_nat_nonempty)
    next
      case bF: False
      from False bF "1.prems"
      have e: "str_nat (a div 10) = str_nat (b div 10)"
        and d: "digit_char (a mod 10) = digit_char (b mod 10)"
        by (simp_all add: str_nat.simps[of a] str_nat.simps[of b])
      from "1.IH"[OF False e] have "a div 10 = b div 10" .
      moreover from d have "a mod 10 = b mod 10"
        by (intro digit_char_inj) simp_all
      ultimately show ?thesis
        by (metis div_mult_mod_eq)
    qed
  qed
qed

section \<open>The unique-name allocator\<close>

text \<open>
  \<^verbatim>\<open>
  def get_unique_name(names, name):
      if name in names:
          i = 1
          while f"{name}_{i}" in names:
              i += 1
          name = f"{name}_{i}"
      names.add(name)
      return name
  \<close>
  The set of used names is a finite set (a Python \<open>set\<close>); the function mutates
  it, so the model returns the name together with the updated set. \<open>suffixed\<close> is
  the f-string \<open>f"{name}_{i}"\<close>, \<open>find_suffix\<close> the \<open>while\<close> loop.
\<close>

definition suffixed :: "string \<Rightarrow> nat \<Rightarrow> string" where
  "suffixed name i = name @ ''_'' @ str_nat i"

lemma suffixed_inj: "suffixed name i = suffixed name j \<Longrightarrow> i = j"
  by (simp add: suffixed_def str_nat_inj)

function find_suffix :: "string fset \<Rightarrow> string \<Rightarrow> nat \<Rightarrow> nat" where
  "find_suffix names name i =
     (if suffixed name i |\<in>| names then find_suffix names name (Suc i) else i)"
  by pat_completeness auto
termination
proof (relation "measure (\<lambda>(names, name, i). card {j. i \<le> j \<and> suffixed name j |\<in>| names})")
  show "wf (measure (\<lambda>(names, name, i). card {j. i \<le> j \<and> suffixed name j |\<in>| names}))"
    by simp
next
  fix names :: "string fset" and name :: string and i :: nat
  assume m: "suffixed name i |\<in>| names"
  let ?S = "\<lambda>i. {j. i \<le> j \<and> suffixed name j |\<in>| names}"
  have inj: "inj_on (suffixed name) (?S i)"
    by (auto simp: inj_on_def dest: suffixed_inj)
  have "suffixed name ` ?S i \<subseteq> fset names" by auto
  then have fin: "finite (?S i)"
    using inj finite_fset finite_imageD finite_subset by blast
  have "i \<in> ?S i" "i \<notin> ?S (Suc i)" "?S (Suc i) \<subseteq> ?S i"
    using m by auto
  then have "?S (Suc i) \<subset> ?S i"
    by blast
  then have "card (?S (Suc i)) < card (?S i)"
    using fin by (rule psubset_card_mono[rotated])
  then show "((names, name, Suc i), (names, name, i))
      \<in> measure (\<lambda>(names, name, i). card {j. i \<le> j \<and> suffixed name j |\<in>| names})"
    by simp
qed

declare find_suffix.simps [simp del]

definition get_unique_name :: "string fset \<Rightarrow> string \<Rightarrow> string \<times> string fset" where
  "get_unique_name names name =
     (let name' = (if name |\<in>| names then suffixed name (find_suffix names name 1) else name)
      in (name', finsert name' names))"

text \<open>
  Feeding a list of candidates to the allocator one after the other, against one set:
  the names returned, in order, and the final set.
\<close>

fun allocate_all :: "string fset \<Rightarrow> string list \<Rightarrow> string list \<times> string fset" where
  "allocate_all names [] = ([], names)"
| "allocate_all names (c # cs) =
     (let (n, names') = get_unique_name names c;
          (ns, names'') = allocate_all names' cs
      in (n # ns, names''))"

lemma find_suffix_least:
  "i \<le> find_suffix names name i \<and>
   suffixed name (find_suffix names name i) |\<notin>| names \<and>
   (\<forall>j. i \<le> j \<and> j < find_suffix names name i \<longrightarrow> suffixed name j |\<in>| names)"
proof (induction names name i rule: find_suffix.induct)
  case (1 names name i)
  show ?case
  proof (cases "suffixed name i |\<in>| names")
    case True
    then have eq: "find_suffix names name i = find_suffix names name (Suc i)"
      by (simp add: find_suffix.simps[of names name i])
    from "1.IH"[OF True] have ih:
      "Suc i \<le> find_suffix names name (Suc i)"
      "suffixed name (find_suffix names name (Suc i)) |\<notin>| names"
      "\<forall>j. Suc i \<le> j \<and> j < find_suffix names name (Suc i) \<longrightarrow> suffixed name j |\<in>| names"
      by simp_all
    have "\<forall>j. i \<le> j \<and> j < find_suffix names name (Suc i) \<longrightarrow> suffixed name j |\<in>| names"
    proof (intro allI impI)
      fix j assume j: "i \<le> j \<and> j < find_suffix names name (Suc i)"
      show "suffixed name j |\<in>| names"
      proof (cases "j = i")
        case True with \<open>suffixed name i |\<in>| names\<close> show ?thesis by simp
      next
        case False with j ih(3) show ?thesis by (simp add: Suc_le_eq)
      qed
    qed
    with ih eq show ?thesis by simp
  next
    case False
    then have "find_suffix names name i = i"
      by (simp add: find_suffix.simps[of names name i])
    with False show ?thesis by auto
  qed
qed

text \<open>
  C4. The allocator returns the candidate unchanged when it is unused; otherwise it
  returns the candidate with the smallest suffix \<open>_1\<close>, \<open>_2\<close>, ... that is not in
  the set; the returned name is added to the set; and the candidates
  \<open>["a", "a", "a"]\<close> fed one after the other to one (initially empty) set give
  exactly \<open>["a", "a_1", "a_2"]\<close>.
\<close>

theorem get_unique_name_smallest_suffix:
  "(name |\<notin>| names \<longrightarrow> get_unique_name names name = (name, finsert name names)) \<and>
   (name |\<in>| names \<longrightarrow>
      (\<exists>i. 1 \<le> i \<and>
           get_unique_name names name = (suffixed name i, finsert (suffixed name i) names) \<and>
           suffixed name i |\<notin>| names \<and>
           (\<forall>j. 1 \<le> j \<and> j < i \<longrightarrow> suffixed name j |\<in>| names))) \<and>
   fst (allocate_all {||} [''a'', ''a'', ''a'']) = [''a'', ''a_1'', ''a_2'']"
proof (intro conjI impI)
  assume "name |\<notin>| names"
  then show "get_unique_name names name = (name, finsert name names)"
    by (simp add: get_unique_name_def)
next
  assume m: "name |\<in>| names"
  let ?i = "find_suffix names name 1"
  have "get_unique_name names name = (suffixed name ?i, finsert (suffixed name ?i) names)"
    using m by (simp add: get_unique_name_def Let_def)
  with find_suffix_least[of 1 names name]
  show "\<exists>i. 1 \<le> i \<and>
           get_unique_name names name = (suffixed name i, finsert (suffixed name i) names) \<and>
           suffixed name i |\<notin>| names \<and>
           (\<forall>j. 1 \<le> j \<and> j < i \<longrightarrow> suffixed name j |\<in>| names)"
    by blast
next
  show "fst (allocate_all {||} [''a'', ''a'', ''a'']) = [''a'', ''a_1'', ''a_2'']"
    by (simp add: get_unique_name_def Let_def find_suffix.simps suffixed_def
        str_nat.simps digit_char_def)
qed

theorem get_unique_name_smallest_suffix_witness:
  "get_unique_name {|''a'', ''a_1''|} ''a'' = (''a_2'', {|''a_2'', ''a'', ''a_1''|}) \<and>
   get_unique_name {|''a'', ''a_1''|} ''b'' = (''b'', {|''b'', ''a'', ''a_1''|}) \<and>
   fst (allocate_all {||} [''a'', ''a'', ''a'']) = [''a'', ''a_1'', ''a_2'']"
proof -
  have 1: "get_unique_name {|''a'', ''a_1''|} ''a'' = (''a_2'', {|''a_2'', ''a'', ''a_1''|})"
    by (simp add: get_unique_name_def Let_def find_suffix.simps suffixed_def
        str_nat.simps digit_char_def)
  have 2: "get_unique_name {|''a'', ''a_1''|} ''b'' = (''b'', {|''b'', ''a'', ''a_1''|})"
    using get_unique_name_smallest_suffix[of "''b''" "{|''a'', ''a_1''|}"] by simp
  from 1 2 get_unique_name_smallest_suffix[of "''a''" "{|''a'', ''a_1''|}"]
  show ?thesis by simp
qed

section \<open>Dictionaries and objects\<close>

text \<open>
  A Python \<open>dict\<close> keeps its entries in insertion order and has no two entries
  with the same key: it is modelled as an association list whose keys are distinct.
  \<open>dict_setitem d k v\<close> is the assignment \<open>d[k] = v\<close>: an existing key keeps
  its place and gets the new value, a new key is appended. \<open>dict_update a b\<close> is
  \<open>{**a, **b}\<close> (equally \<open>a.update(b)\<close> on a copy of \<open>a\<close>): the entries of
  \<open>b\<close> assigned into \<open>a\<close> in their order.
\<close>

type_synonym ('k, 'v) dict = "('k \<times> 'v) list"

fun dict_setitem :: "('k, 'v) dict \<Rightarrow> 'k \<Rightarrow> 'v \<Rightarrow> ('k, 'v) dict" where
  "dict_setitem [] k v = [(k, v)]"
| "dict_setitem ((k', v') # d) k v =
     (if k' = k then (k', v) # d else (k', v') # dict_setitem d k v)"

definition dict_update :: "('k, 'v) dict \<Rightarrow> ('k, 'v) dict \<Rightarrow> ('k, 'v) dict" where
  "dict_update a b = foldl (\<lambda>d (k, v). dict_setitem d k v) a b"

lemma keys_dict_setitem:
  "map fst (dict_setitem d k v) = (if k \<in> fst ` set d then map fst d else map fst d @ [k])"
  by (induction d) (force simp: image_iff split: if_splits)+

lemma distinct_dict_setitem:
  "distinct (map fst d) \<Longrightarrow> distinct (map fst (dict_setitem d k v))"
  by (simp add: keys_dict_setitem)

lemma distinct_dict_update:
  "distinct (map fst a) \<Longrightarrow> distinct (map fst (dict_update a b))"
  unfolding dict_update_def
  by (induction b arbitrary: a) (auto simp: distinct_dict_setitem)

text \<open>
  Dictionaries are objects: two variables may name the same one, and an assignment
  through one is seen through the other. Where that matters the dictionaries live in a
  store, a list of dictionaries addressed by position. \<open>dict_copy\<close> is
  \<open>a.copy()\<close> and \<open>dict(a)\<close>: a new object with the entries of \<open>a\<close>;
  \<open>heap_setitem\<close> is \<open>d[k] = v\<close> on the object at an address.
\<close>

type_synonym 'v heap = "(string, 'v) dict list"

definition heap_ok :: "'v heap \<Rightarrow> bool" where
  "heap_ok h = list_all (\<lambda>d. distinct (map fst d)) h"

definition dict_copy :: "'v heap \<Rightarrow> nat \<Rightarrow> nat \<times> 'v heap" where
  "dict_copy h p = (length h, h @ [h ! p])"

definition heap_setitem :: "'v heap \<Rightarrow> nat \<Rightarrow> string \<Rightarrow> 'v \<Rightarrow> 'v heap" where
  "heap_setitem h p k v = h[p := dict_setitem (h ! p) k v]"

section \<open>Merging dictionaries with unique names\<close>

text \<open>
  \<^verbatim>\<open>
  def merge_with_unique_names(a, *rest):
      a = a.copy()
      for b in rest:
          a = _merge_with_unique_names(a, b)
      return a

  def _merge_with_unique_names(a, b):
      names = set()
      output = dict(a)
      for name, value in b.items():
          output[get_unique_name(names, name)] = value
      return output
  \<close>
  The arguments are addresses of dictionaries in the store; the functions return the
  address of the result and the store they leave. \<open>merge_loop\<close> is the \<open>for\<close>
  loop of \<open>_merge_with_unique_names\<close>, over the entries of \<open>b\<close>, with the set
  \<open>names\<close> and the store as its state; \<open>merge_rest\<close> is the loop of
  \<open>merge_with_unique_names\<close>.
\<close>

fun merge_loop :: "string fset \<Rightarrow> 'v heap \<Rightarrow> nat \<Rightarrow> (string, 'v) dict \<Rightarrow> 'v heap" where
  "merge_loop names h output [] = h"
| "merge_loop names h output ((name, val) # items) =
     (let (n, names') = get_unique_name names name
      in merge_loop names' (heap_setitem h output n val) output items)"

definition merge_with_unique_names_pair :: "'v heap \<Rightarrow> nat \<Rightarrow> nat \<Rightarrow> nat \<times> 'v heap" where
  "merge_with_unique_names_pair h a b =
     (let names = {||};
          (output, h1) = dict_copy h a
      in (output, merge_loop names h1 output (h1 ! b)))"

fun merge_rest :: "'v heap \<Rightarrow> nat \<Rightarrow> nat list \<Rightarrow> nat \<times> 'v heap" where
  "merge_rest h a [] = (a, h)"
| "merge_rest h a (b # rest) =
     (let (a', h') = merge_with_unique_names_pair h a b in merge_rest h' a' rest)"

definition merge_with_unique_names :: "'v heap \<Rightarrow> nat \<Rightarrow> nat list \<Rightarrow> nat \<times> 'v heap" where
  "merge_with_unique_names h a rest =
     (let (a', h') = dict_copy h a in merge_rest h' a' rest)"

lemma merge_loop_plain:
  "distinct (map fst items) \<Longrightarrow> fset names \<inter> fst ` set items = {} \<Longrightarrow> output < length h \<Longrightarrow>
   merge_loop names h output items = h[output := dict_update (h ! output) items]"
proof (induction items arbitrary: names h)
  case Nil
  then show ?case by (simp add: dict_update_def)
next
  case (Cons kv items)
  obtain k v where kv: "kv = (k, v)" by (cases kv)
  from Cons.prems kv have nk: "k |\<notin>| names" by auto
  then have g: "get_unique_name names k = (k, finsert k names)"
    by (simp add: get_unique_name_def)
  have d: "distinct (map fst items)" using Cons.prems by simp
  have i: "fset (finsert k names) \<inter> fst ` set items = {}"
    using Cons.prems kv by auto
  have l: "output < length (heap_setitem h output k v)"
    using Cons.prems by (simp add: heap_setitem_def)
  show ?case
    using Cons.IH[OF d i l] Cons.prems(3)
    by (simp add: kv g heap_setitem_def dict_update_def)
qed

lemma merge_with_unique_names_pair_plain:
  assumes "heap_ok h" "a < length h" "b < length h"
  shows "merge_with_unique_names_pair h a b = (length h, h @ [dict_update (h ! a) (h ! b)])"
proof -
  have d: "distinct (map fst (h ! b))"
    using assms by (simp add: heap_ok_def list_all_length)
  have "merge_loop {||} (h @ [h ! a]) (length h) (h ! b)
      = (h @ [h ! a])[length h := dict_update ((h @ [h ! a]) ! length h) (h ! b)]"
    by (rule merge_loop_plain) (use d in simp_all)
  then show ?thesis
    using assms by (simp add: merge_with_unique_names_pair_def dict_copy_def nth_append)
qed

lemma merge_rest_plain:
  assumes "heap_ok h" "a < length h" "list_all (\<lambda>b. b < length h) rest"
  shows "\<exists>r ext. merge_rest h a rest = (r, h @ ext) \<and> a \<le> r \<and> r < length (h @ ext) \<and>
           (h @ ext) ! r = foldl dict_update (h ! a) (map ((!) h) rest)"
  using assms
proof (induction rest arbitrary: h a)
  case Nil
  then show ?case by simp
next
  case (Cons b rest)
  let ?d = "dict_update (h ! a) (h ! b)"
  let ?h1 = "h @ [?d]"
  have b: "b < length h" and rest: "list_all (\<lambda>b. b < length h) rest"
    using Cons.prems by simp_all
  have step: "merge_with_unique_names_pair h a b = (length h, ?h1)"
    using Cons.prems b by (intro merge_with_unique_names_pair_plain)
  have "distinct (map fst (h ! a))"
    using Cons.prems by (simp add: heap_ok_def list_all_length)
  then have ok1: "heap_ok ?h1"
    using Cons.prems(1) by (simp add: heap_ok_def distinct_dict_update)
  have rest1: "list_all (\<lambda>b. b < length ?h1) rest"
    using rest by (auto simp: list_all_iff less_Suc_eq)
  from Cons.IH[OF ok1 _ rest1, of "length h"]
  obtain r ext where r: "merge_rest ?h1 (length h) rest = (r, ?h1 @ ext)"
    "length h \<le> r" "r < length (?h1 @ ext)"
    "(?h1 @ ext) ! r = foldl dict_update (?h1 ! length h) (map ((!) ?h1) rest)"
    by auto
  have m: "map ((!) ?h1) rest = map ((!) h) rest"
    using rest by (auto simp: list_all_iff nth_append)
  have "merge_rest h a (b # rest) = (r, h @ ([?d] @ ext))"
    using step r(1) by simp
  moreover have "a \<le> r" using Cons.prems(2) r(2) by simp
  moreover have "r < length (h @ ([?d] @ ext))" using r(3) by simp
  moreover have "(h @ ([?d] @ ext)) ! r = foldl dict_update (h ! a) (map ((!) h) (b # rest))"
    using r(4) m by simp
  ultimately show ?case by blast
qed

text \<open>
  C9. \<open>merge_with_unique_names(a, b1, ..., bn)\<close> is the plain left-to-right update
  \<open>{**a, **b1, ..., **bn}\<close>: the set of used names starts empty for each pairwise
  merge and the keys of each dictionary are distinct, so no suffix is ever appended and
  a key of a later dictionary overwrites the entry of an earlier one. The result is a
  new object, and every dictionary that was in the store before the call (the inputs
  among them) is left as it was.
\<close>

theorem merge_with_unique_names_plain_update:
  assumes "heap_ok h" "a < length h" "list_all (\<lambda>b. b < length h) rest"
  shows "case merge_with_unique_names h a rest of (r, h') \<Rightarrow>
           length h \<le> r \<and> r < length h' \<and>
           h' ! r = foldl dict_update (h ! a) (map ((!) h) rest) \<and>
           take (length h) h' = h"
proof -
  let ?h0 = "h @ [h ! a]"
  have "distinct (map fst (h ! a))"
    using assms by (simp add: heap_ok_def list_all_length)
  then have ok: "heap_ok ?h0" using assms(1) by (simp add: heap_ok_def)
  have rest0: "list_all (\<lambda>b. b < length ?h0) rest"
    using assms(3) by (auto simp: list_all_iff less_Suc_eq)
  from merge_rest_plain[OF ok _ rest0, of "length h"]
  obtain r ext where r: "merge_rest ?h0 (length h) rest = (r, ?h0 @ ext)"
    "length h \<le> r" "r < length (?h0 @ ext)"
    "(?h0 @ ext) ! r = foldl dict_update (?h0 ! length h) (map ((!) ?h0) rest)"
    by auto
  have m: "map ((!) ?h0) rest = map ((!) h) rest"
    using assms(3) by (auto simp: list_all_iff nth_append)
  show ?thesis
    using r m by (simp add: merge_with_unique_names_def dict_copy_def)
qed

theorem merge_with_unique_names_plain_update_witness:
  "heap_ok [[(''x'', 1::int), (''y'', 2)], [(''y'', 3), (''z'', 4)]] \<and>
   (case merge_with_unique_names [[(''x'', 1::int), (''y'', 2)], [(''y'', 3), (''z'', 4)]] 0 [1] of
      (r, h') \<Rightarrow> 2 \<le> r \<and> r < length h' \<and>
        h' ! r = [(''x'', 1), (''y'', 3), (''z'', 4)] \<and>
        take 2 h' = [[(''x'', 1), (''y'', 2)], [(''y'', 3), (''z'', 4)]])"
proof -
  let ?h = "[[(''x'', 1::int), (''y'', 2)], [(''y'', 3), (''z'', 4)]]"
  have ok: "heap_ok ?h" by (simp add: heap_ok_def)
  have a: "0 < length ?h" by simp
  have r: "list_all (\<lambda>b. b < length ?h) [1]" by simp
  from merge_with_unique_names_plain_update[OF ok a r] ok
  show ?thesis by (simp add: dict_update_def numeral_2_eq_2)
qed

section \<open>Nested structures and paths\<close>

text \<open>
  The values the path utilities and the structural merge walk: a leaf (anything that is
  neither a list, a tuple nor a dict), a list, a tuple, or a dict (insertion-ordered,
  keys distinct). A path segment is a string or an integer (\<open>types.Path\<close>), and so is
  a dict key here; a list or tuple index is the integer segment.
\<close>

datatype seg = SInt int | SStr string

datatype 'a pytree =
    Leaf 'a
  | PList "'a pytree list"
  | PTuple "'a pytree list"
  | PDict "(seg, 'a pytree) dict"

type_synonym path = "seg list"

text \<open>
  \<^verbatim>\<open>
  def _leaf_paths(path, inputs):
      if isinstance(inputs, (tp.Tuple, tp.List)):
          for i, value in enumerate(inputs):
              yield from _leaf_paths(path + (i,), value)
      elif isinstance(inputs, tp.Dict):
          for name, value in inputs.items():
              yield from _leaf_paths(path + (name,), value)
      else:
          yield (path, inputs)

  def leaf_paths(inputs):
      return list(_leaf_paths((), inputs))
  \<close>
  \<open>leaf_paths_from\<close> is \<open>_leaf_paths\<close>, with the pairs it yields as a list;
  \<open>leaf_paths_seq\<close> is its loop over \<open>enumerate(inputs)\<close> (the counter is the
  index), \<open>leaf_paths_items\<close> its loop over \<open>inputs.items()\<close>.
\<close>

fun leaf_paths_from :: "path \<Rightarrow> 'a pytree \<Rightarrow> (path \<times> 'a) list"
  and leaf_paths_seq :: "path \<Rightarrow> nat \<Rightarrow> 'a pytree list \<Rightarrow> (path \<times> 'a) list"
  and leaf_paths_items :: "path \<Rightarrow> (seg, 'a pytree) dict \<Rightarrow> (path \<times> 'a) list" where
  "leaf_paths_from path (PList xs) = leaf_paths_seq path 0 xs"
| "leaf_paths_from path (PTuple xs) = leaf_paths_seq path 0 xs"
| "leaf_paths_from path (PDict d) = leaf_paths_items path d"
| "leaf_paths_from path (Leaf v) = [(path, v)]"
| "leaf_paths_seq path i [] = []"
| "leaf_paths_seq path i (value # rest) =
     leaf_paths_from (path @ [SInt (int i)]) value @ leaf_paths_seq path (Suc i) rest"
| "leaf_paths_items path [] = []"
| "leaf_paths_items path ((name, value) # rest) =
     leaf_paths_from (path @ [name]) value @ leaf_paths_items path rest"

definition leaf_paths :: "'a pytree \<Rightarrow> (path \<times> 'a) list" where
  "leaf_paths inputs = leaf_paths_from [] inputs"

text \<open>
  \<^verbatim>\<open>
  def _flatten_names(path, inputs):
      if isinstance(inputs, (tp.Tuple, tp.List)):
          for i, value in enumerate(inputs):
              yield from _flatten_names(path, value)
      elif isinstance(inputs, tp.Dict):
          for name, value in inputs.items():
              yield from _flatten_names(path + (name,), value)
      else:
          yield (path, inputs)

  def flatten_names(inputs):
      return [
          ("/".join(map(str, path)), value) for path, value in _flatten_names((), inputs)
      ]
  \<close>
  \<open>flatten_names_from\<close> is \<open>_flatten_names\<close>: the loop over a list or tuple
  passes \<open>path\<close> on as it is. \<open>str_seg\<close> is \<open>str\<close> on a segment and
  \<open>join\<close> is \<open>sep.join\<close>.
\<close>

fun flatten_names_from :: "path \<Rightarrow> 'a pytree \<Rightarrow> (path \<times> 'a) list"
  and flatten_names_seq :: "path \<Rightarrow> nat \<Rightarrow> 'a pytree list \<Rightarrow> (path \<times> 'a) list"
  and flatten_names_items :: "path \<Rightarrow> (seg, 'a pytree) dict \<Rightarrow> (path \<times> 'a) list" where
  "flatten_names_from path (PList xs) = flatten_names_seq path 0 xs"
| "flatten_names_from path (PTuple xs) = flatten_names_seq path 0 xs"
| "flatten_names_from path (PDict d) = flatten_names_items path d"
| "flatten_names_from path (Leaf v) = [(path, v)]"
| "flatten_names_seq path i [] = []"
| "flatten_names_seq path i (value # rest) =
     flatten_names_from path value @ flatten_names_seq path (Suc i) rest"
| "flatten_names_items path [] = []"
| "flatten_names_items path ((name, value) # rest) =
     flatten_names_from (path @ [name]) value @ flatten_names_items path rest"

definition str_int :: "int \<Rightarrow> string" where
  "str_int i = (if i < 0 then ''-'' @ str_nat (nat (- i)) else str_nat (nat i))"

fun str_seg :: "seg \<Rightarrow> string" where
  "str_seg (SInt i) = str_int i"
| "str_seg (SStr s) = s"

fun join :: "string \<Rightarrow> string list \<Rightarrow> string" where
  "join sep [] = []"
| "join sep [x] = x"
| "join sep (x # y # ys) = x @ sep @ join sep (y # ys)"

definition flatten_names :: "'a pytree \<Rightarrow> (string \<times> 'a) list" where
  "flatten_names inputs =
     map (\<lambda>(path, value). (join ''/'' (map str_seg path), value)) (flatten_names_from [] inputs)"

lemma leaf_paths_seq_prefix:
  assumes "\<And>t q. t \<in> set xs \<Longrightarrow>
     leaf_paths_from q t = map (\<lambda>(p, v). (q @ p, v)) (leaf_paths_from [] t)"
  shows "leaf_paths_seq q i xs = map (\<lambda>(p, v). (q @ p, v)) (leaf_paths_seq [] i xs)"
  using assms
proof (induction xs arbitrary: i)
  case Nil
  then show ?case by simp
next
  case (Cons x xs)
  have a: "leaf_paths_from (q @ [SInt (int i)]) x
      = map (\<lambda>(p, v). ((q @ [SInt (int i)]) @ p, v)) (leaf_paths_from [] x)"
    by (rule Cons.prems) simp
  have b: "leaf_paths_from [SInt (int i)] x
      = map (\<lambda>(p, v). ([SInt (int i)] @ p, v)) (leaf_paths_from [] x)"
    by (rule Cons.prems) simp
  have c: "leaf_paths_seq q (Suc i) xs = map (\<lambda>(p, v). (q @ p, v)) (leaf_paths_seq [] (Suc i) xs)"
    by (rule Cons.IH, rule Cons.prems) simp
  show ?case
    by (simp add: a b c case_prod_unfold comp_def)
qed

lemma leaf_paths_items_prefix:
  assumes "\<And>k t q. (k, t) \<in> set d \<Longrightarrow>
     leaf_paths_from q t = map (\<lambda>(p, v). (q @ p, v)) (leaf_paths_from [] t)"
  shows "leaf_paths_items q d = map (\<lambda>(p, v). (q @ p, v)) (leaf_paths_items [] d)"
  using assms
proof (induction d)
  case Nil
  then show ?case by simp
next
  case (Cons kv d)
  obtain k t where kv: "kv = (k, t)" by (cases kv)
  have a: "leaf_paths_from (q @ [k]) t
      = map (\<lambda>(p, v). ((q @ [k]) @ p, v)) (leaf_paths_from [] t)"
    by (rule Cons.prems[of k]) (simp add: kv)
  have b: "leaf_paths_from [k] t = map (\<lambda>(p, v). ([k] @ p, v)) (leaf_paths_from [] t)"
    by (rule Cons.prems[of k]) (simp add: kv)
  have c: "leaf_paths_items q d = map (\<lambda>(p, v). (q @ p, v)) (leaf_paths_items [] d)"
  proof (rule Cons.IH)
    fix k' t' q' assume "(k', t') \<in> set d"
    then show "leaf_paths_from q' t' = map (\<lambda>(p, v). (q' @ p, v)) (leaf_paths_from [] t')"
      by (intro Cons.prems[of k']) simp
  qed
  show ?case
    by (simp add: kv a b c case_prod_unfold comp_def)
qed

lemma leaf_paths_prefix:
  "leaf_paths_from q t = map (\<lambda>(p, v). (q @ p, v)) (leaf_paths_from [] t)"
proof (induction t arbitrary: q)
  case (Leaf x)
  show ?case by simp
next
  case (PList xs)
  show ?case unfolding leaf_paths_from.simps
    by (rule leaf_paths_seq_prefix) (rule PList)
next
  case (PTuple xs)
  show ?case unfolding leaf_paths_from.simps
    by (rule leaf_paths_seq_prefix) (rule PTuple)
next
  case (PDict d)
  have "leaf_paths_items q d = map (\<lambda>(p, v). (q @ p, v)) (leaf_paths_items [] d)"
  proof (rule leaf_paths_items_prefix)
    fix k t q assume "(k, t) \<in> set d"
    then show "leaf_paths_from q t = map (\<lambda>(p, v). (q @ p, v)) (leaf_paths_from [] t)"
      by (intro PDict) (auto simp: snds.simps)
  qed
  then show ?case unfolding leaf_paths_from.simps .
qed

lemma leaf_paths_seq_enumerate:
  "leaf_paths_seq [] i xs =
     concat (map (\<lambda>(j, t). map (\<lambda>(p, v). (SInt (int j) # p, v)) (leaf_paths t)) (enumerate i xs))"
proof (induction xs arbitrary: i)
  case Nil
  then show ?case by simp
next
  case (Cons x xs)
  show ?case
    using leaf_paths_prefix[of "[SInt (int i)]" x]
    by (simp add: Cons.IH leaf_paths_def)
qed

lemma leaf_paths_items_entries:
  "leaf_paths_items [] d =
     concat (map (\<lambda>(k, t). map (\<lambda>(p, v). (k # p, v)) (leaf_paths t)) d)"
proof (induction d)
  case Nil
  then show ?case by simp
next
  case (Cons kv d)
  obtain k t where kv: "kv = (k, t)" by (cases kv)
  show ?case
    using leaf_paths_prefix[of "[k]" t]
    by (simp add: Cons.IH leaf_paths_def kv)
qed

lemma flatten_names_seq_prefix:
  assumes "\<And>t q. t \<in> set xs \<Longrightarrow>
     flatten_names_from q t = map (\<lambda>(p, v). (q @ p, v)) (flatten_names_from [] t)"
  shows "flatten_names_seq q i xs = map (\<lambda>(p, v). (q @ p, v)) (flatten_names_seq [] i xs)"
  using assms
proof (induction xs arbitrary: i)
  case Nil
  then show ?case by simp
next
  case (Cons x xs)
  have a: "flatten_names_from q x = map (\<lambda>(p, v). (q @ p, v)) (flatten_names_from [] x)"
    by (rule Cons.prems) simp
  have c: "flatten_names_seq q (Suc i) xs = map (\<lambda>(p, v). (q @ p, v)) (flatten_names_seq [] (Suc i) xs)"
    by (rule Cons.IH, rule Cons.prems) simp
  show ?case
    by (simp add: a c)
qed

lemma flatten_names_items_prefix:
  assumes "\<And>k t q. (k, t) \<in> set d \<Longrightarrow>
     flatten_names_from q t = map (\<lambda>(p, v). (q @ p, v)) (flatten_names_from [] t)"
  shows "flatten_names_items q d = map (\<lambda>(p, v). (q @ p, v)) (flatten_names_items [] d)"
  using assms
proof (induction d)
  case Nil
  then show ?case by simp
next
  case (Cons kv d)
  obtain k t where kv: "kv = (k, t)" by (cases kv)
  have a: "flatten_names_from (q @ [k]) t
      = map (\<lambda>(p, v). ((q @ [k]) @ p, v)) (flatten_names_from [] t)"
    by (rule Cons.prems[of k]) (simp add: kv)
  have b: "flatten_names_from [k] t = map (\<lambda>(p, v). ([k] @ p, v)) (flatten_names_from [] t)"
    by (rule Cons.prems[of k]) (simp add: kv)
  have c: "flatten_names_items q d = map (\<lambda>(p, v). (q @ p, v)) (flatten_names_items [] d)"
  proof (rule Cons.IH)
    fix k' t' q' assume "(k', t') \<in> set d"
    then show "flatten_names_from q' t' = map (\<lambda>(p, v). (q' @ p, v)) (flatten_names_from [] t')"
      by (intro Cons.prems[of k']) simp
  qed
  show ?case
    by (simp add: kv a b c case_prod_unfold comp_def)
qed

lemma flatten_names_prefix:
  "flatten_names_from q t = map (\<lambda>(p, v). (q @ p, v)) (flatten_names_from [] t)"
proof (induction t arbitrary: q)
  case (Leaf x)
  show ?case by simp
next
  case (PList xs)
  show ?case unfolding flatten_names_from.simps
    by (rule flatten_names_seq_prefix) (rule PList)
next
  case (PTuple xs)
  show ?case unfolding flatten_names_from.simps
    by (rule flatten_names_seq_prefix) (rule PTuple)
next
  case (PDict d)
  have "flatten_names_items q d = map (\<lambda>(p, v). (q @ p, v)) (flatten_names_items [] d)"
  proof (rule flatten_names_items_prefix)
    fix k t q assume "(k, t) \<in> set d"
    then show "flatten_names_from q t = map (\<lambda>(p, v). (q @ p, v)) (flatten_names_from [] t)"
      by (intro PDict) (auto simp: snds.simps)
  qed
  then show ?case unfolding flatten_names_from.simps .
qed

lemma flatten_names_seq_concat:
  "flatten_names_seq [] i xs = concat (map (flatten_names_from []) xs)"
  by (induction xs arbitrary: i) simp_all

lemma flatten_names_items_entries:
  "flatten_names_items [] d =
     concat (map (\<lambda>(k, t). map (\<lambda>(p, v). (k # p, v)) (flatten_names_from [] t)) d)"
proof (induction d)
  case Nil
  then show ?case by simp
next
  case (Cons kv d)
  obtain k t where kv: "kv = (k, t)" by (cases kv)
  show ?case
    using flatten_names_prefix[of "[k]" t]
    by (simp add: Cons.IH kv)
qed

text \<open>
  C3 (as amended). Every leaf's path from \<open>leaf_paths\<close> has one segment for each
  level of nesting above the leaf: the integer index for an element of a list or a
  tuple, the key for an entry of a dict. \<open>flatten_names\<close> has one segment for each
  dict level only, the key; a list or a tuple adds no segment; its display form joins
  the segments, rendered by \<open>str\<close>, with \<open>"/"\<close>.
\<close>

theorem path_segments_per_level:
  "leaf_paths (Leaf x) = [([], x)] \<and>
   leaf_paths (PList xs) =
     concat (map (\<lambda>(i, t). map (\<lambda>(p, v). (SInt (int i) # p, v)) (leaf_paths t)) (enumerate 0 xs)) \<and>
   leaf_paths (PTuple xs) =
     concat (map (\<lambda>(i, t). map (\<lambda>(p, v). (SInt (int i) # p, v)) (leaf_paths t)) (enumerate 0 xs)) \<and>
   leaf_paths (PDict d) =
     concat (map (\<lambda>(k, t). map (\<lambda>(p, v). (k # p, v)) (leaf_paths t)) d) \<and>
   flatten_names_from [] (Leaf x) = [([], x)] \<and>
   flatten_names_from [] (PList xs) = concat (map (flatten_names_from []) xs) \<and>
   flatten_names_from [] (PTuple xs) = concat (map (flatten_names_from []) xs) \<and>
   flatten_names_from [] (PDict d) =
     concat (map (\<lambda>(k, t). map (\<lambda>(p, v). (k # p, v)) (flatten_names_from [] t)) d) \<and>
   flatten_names inputs =
     map (\<lambda>(p, v). (join ''/'' (map str_seg p), v)) (flatten_names_from [] inputs)"
proof (intro conjI)
  show "leaf_paths (Leaf x) = [([], x)]"
    by (simp add: leaf_paths_def)
  show "leaf_paths (PList xs) =
     concat (map (\<lambda>(i, t). map (\<lambda>(p, v). (SInt (int i) # p, v)) (leaf_paths t)) (enumerate 0 xs))"
    by (simp add: leaf_paths_def[of "PList xs"] leaf_paths_seq_enumerate)
  show "leaf_paths (PTuple xs) =
     concat (map (\<lambda>(i, t). map (\<lambda>(p, v). (SInt (int i) # p, v)) (leaf_paths t)) (enumerate 0 xs))"
    by (simp add: leaf_paths_def[of "PTuple xs"] leaf_paths_seq_enumerate)
  show "leaf_paths (PDict d) =
     concat (map (\<lambda>(k, t). map (\<lambda>(p, v). (k # p, v)) (leaf_paths t)) d)"
    by (simp add: leaf_paths_def[of "PDict d"] leaf_paths_items_entries)
  show "flatten_names_from [] (Leaf x) = [([], x)]"
    by simp
  show "flatten_names_from [] (PList xs) = concat (map (flatten_names_from []) xs)"
    by (simp add: flatten_names_seq_concat)
  show "flatten_names_from [] (PTuple xs) = concat (map (flatten_names_from []) xs)"
    by (simp add: flatten_names_seq_concat)
  show "flatten_names_from [] (PDict d) =
     concat (map (\<lambda>(k, t). map (\<lambda>(p, v). (k # p, v)) (flatten_names_from [] t)) d)"
    by (simp add: flatten_names_items_entries)
  show "flatten_names inputs =
     map (\<lambda>(p, v). (join ''/'' (map str_seg p), v)) (flatten_names_from [] inputs)"
    by (simp add: flatten_names_def)
qed

text \<open>
  The claim as stated fails for \<open>flatten_names\<close>: on a list holding a leaf and a
  dict, the names are \<open>""\<close> and \<open>"w"\<close>, not the joined paths \<open>"0"\<close> and
  \<open>"1/w"\<close> of \<open>leaf_paths\<close>.
\<close>

theorem flatten_names_drops_indices:
  "flatten_names (PList [Leaf (7::int), PDict [(SStr ''w'', Leaf 8)]]) = [('''', 7), (''w'', 8)] \<and>
   map (\<lambda>(p, v). (join ''/'' (map str_seg p), v))
     (leaf_paths (PList [Leaf (7::int), PDict [(SStr ''w'', Leaf 8)]])) = [(''0'', 7), (''1/w'', 8)] \<and>
   flatten_names (PList [Leaf (7::int), PDict [(SStr ''w'', Leaf 8)]]) \<noteq>
   map (\<lambda>(p, v). (join ''/'' (map str_seg p), v))
     (leaf_paths (PList [Leaf (7::int), PDict [(SStr ''w'', Leaf 8)]]))"
  by (simp add: flatten_names_def leaf_paths_def str_int_def str_nat.simps digit_char_def)

section \<open>Looking a path up\<close>

text \<open>
  \<^verbatim>\<open>
  def get_path_params(path, params):
      for key in path:
          try:
              params = params[key]
          except BaseException as e:
              return None
      return params
  \<close>
  \<open>py_getitem\<close> is the subscription \<open>params[key]\<close>: a dict raises
  \<open>KeyError\<close> for a key it does not have; a list or a tuple takes an integer, counts
  a negative one from the end, and raises \<open>IndexError\<close> out of range and
  \<open>TypeError\<close> for a string. What subscribing a leaf does depends on the leaf (an
  array can be indexed, a number cannot): it is the parameter \<open>leaf_item\<close>.
  The \<open>None\<close> the function returns on a failure is the \<open>None\<close> of the option.
\<close>

datatype py_error = KeyError | IndexError | TypeError | ValueError

fun dict_get :: "('k, 'v) dict \<Rightarrow> 'k \<Rightarrow> 'v option" where
  "dict_get [] k = None"
| "dict_get ((k', v) # d) k = (if k' = k then Some v else dict_get d k)"

definition seq_getitem :: "'a pytree list \<Rightarrow> seg \<Rightarrow> py_error + 'a pytree" where
  "seq_getitem xs key =
     (case key of
        SStr s \<Rightarrow> Inl TypeError
      | SInt i \<Rightarrow>
          (let n = int (length xs); j = (if i < 0 then i + n else i)
           in if 0 \<le> j \<and> j < n then Inr (xs ! nat j) else Inl IndexError))"

fun py_getitem :: "('a \<Rightarrow> seg \<Rightarrow> py_error + 'a pytree) \<Rightarrow> 'a pytree \<Rightarrow> seg \<Rightarrow> py_error + 'a pytree" where
  "py_getitem leaf_item (PDict d) key =
     (case dict_get d key of None \<Rightarrow> Inl KeyError | Some v \<Rightarrow> Inr v)"
| "py_getitem leaf_item (PList xs) key = seq_getitem xs key"
| "py_getitem leaf_item (PTuple xs) key = seq_getitem xs key"
| "py_getitem leaf_item (Leaf x) key = leaf_item x key"

fun get_path_params :: "('a \<Rightarrow> seg \<Rightarrow> py_error + 'a pytree) \<Rightarrow> path \<Rightarrow> 'a pytree \<Rightarrow> 'a pytree option" where
  "get_path_params leaf_item [] params = Some params"
| "get_path_params leaf_item (key # path) params =
     (case py_getitem leaf_item params key of
        Inl e \<Rightarrow> None
      | Inr v \<Rightarrow> get_path_params leaf_item path v)"

fun index_in_order :: "('a \<Rightarrow> seg \<Rightarrow> py_error + 'a pytree) \<Rightarrow> 'a pytree \<Rightarrow> path \<Rightarrow> py_error + 'a pytree" where
  "index_in_order leaf_item params [] = Inr params"
| "index_in_order leaf_item params (key # path) =
     (case py_getitem leaf_item params key of
        Inl e \<Rightarrow> Inl e
      | Inr v \<Rightarrow> index_in_order leaf_item v path)"

definition not_indexable :: "'a \<Rightarrow> seg \<Rightarrow> py_error + 'a pytree" where
  "not_indexable x key = Inl TypeError"

lemma get_path_params_None_iff:
  "get_path_params leaf_item path params = None \<longleftrightarrow>
     (\<exists>ks key rest v e. path = ks @ key # rest \<and>
        index_in_order leaf_item params ks = Inr v \<and> py_getitem leaf_item v key = Inl e)"
proof (induction path arbitrary: params)
  case Nil
  then show ?case by simp
next
  case (Cons k path)
  show ?case
  proof (cases "py_getitem leaf_item params k")
    case (Inl e)
    have "k # path = [] @ k # path \<and> index_in_order leaf_item params [] = Inr params \<and>
        py_getitem leaf_item params k = Inl e"
      using Inl by simp
    then have "\<exists>ks key rest v e. k # path = ks @ key # rest \<and>
        index_in_order leaf_item params ks = Inr v \<and> py_getitem leaf_item v key = Inl e"
      by blast
    with Inl show ?thesis by simp
  next
    case (Inr v1)
    have "(\<exists>ks key rest v e. k # path = ks @ key # rest \<and>
        index_in_order leaf_item params ks = Inr v \<and> py_getitem leaf_item v key = Inl e)
      \<longleftrightarrow> (\<exists>ks key rest v e. path = ks @ key # rest \<and>
        index_in_order leaf_item v1 ks = Inr v \<and> py_getitem leaf_item v key = Inl e)"
      (is "?L \<longleftrightarrow> ?R")
    proof
      assume ?L
      then obtain ks key rest v e where h: "k # path = ks @ key # rest"
        "index_in_order leaf_item params ks = Inr v" "py_getitem leaf_item v key = Inl e"
        by blast
      show ?R
      proof (cases ks)
        case Nil
        with h Inr show ?thesis by simp
      next
        case (Cons k' ks')
        with h Inr have "path = ks' @ key # rest" "index_in_order leaf_item v1 ks' = Inr v"
          by simp_all
        with h(3) show ?thesis by blast
      qed
    next
      assume ?R
      then obtain ks key rest v e where h: "path = ks @ key # rest"
        "index_in_order leaf_item v1 ks = Inr v" "py_getitem leaf_item v key = Inl e"
        by blast
      then have "k # path = (k # ks) @ key # rest"
        "index_in_order leaf_item params (k # ks) = Inr v"
        using Inr by simp_all
      with h(3) show ?L by blast
    qed
    with Cons.IH[of v1] Inr show ?thesis by simp
  qed
qed

text \<open>
  C10. \<open>get_path_params\<close> always returns: the value reached by indexing
  \<open>params\<close> with each segment of the path in order when every lookup succeeds, and
  \<open>None\<close> exactly when some segment fails to index the value reached by the
  segments before it (missing key, index out of range, value that cannot be indexed),
  whatever the error.
\<close>

theorem get_path_params_total:
  "get_path_params leaf_item path params =
     (case index_in_order leaf_item params path of Inr v \<Rightarrow> Some v | Inl e \<Rightarrow> None) \<and>
   (get_path_params leaf_item path params = None \<longleftrightarrow>
     (\<exists>ks key rest v e. path = ks @ key # rest \<and>
        index_in_order leaf_item params ks = Inr v \<and> py_getitem leaf_item v key = Inl e))"
proof
  show "get_path_params leaf_item path params =
     (case index_in_order leaf_item params path of Inr v \<Rightarrow> Some v | Inl e \<Rightarrow> None)"
    by (induction path arbitrary: params) (auto split: sum.splits)
  show "get_path_params leaf_item path params = None \<longleftrightarrow>
     (\<exists>ks key rest v e. path = ks @ key # rest \<and>
        index_in_order leaf_item params ks = Inr v \<and> py_getitem leaf_item v key = Inl e)"
    by (rule get_path_params_None_iff)
qed

theorem get_path_params_total_witness:
  "get_path_params not_indexable [SStr ''a'', SInt (- 1), SInt 0]
     (PDict [(SStr ''a'', PList [Leaf (1::int), PTuple [Leaf 2, Leaf 3]]), (SStr ''b'', Leaf 4)])
     = Some (Leaf 2) \<and>
   get_path_params not_indexable [SStr ''a'', SInt 2, SInt 0]
     (PDict [(SStr ''a'', PList [Leaf (1::int), PTuple [Leaf 2, Leaf 3]]), (SStr ''b'', Leaf 4)])
     = None \<and>
   get_path_params not_indexable [SStr ''b'', SInt 0]
     (PDict [(SStr ''a'', PList [Leaf (1::int), PTuple [Leaf 2, Leaf 3]]), (SStr ''b'', Leaf 4)])
     = None"
proof -
  let ?t = "PDict [(SStr ''a'', PList [Leaf (1::int), PTuple [Leaf 2, Leaf 3]]), (SStr ''b'', Leaf 4)]"
  have 1: "index_in_order not_indexable ?t [SStr ''a'', SInt (- 1), SInt 0] = Inr (Leaf 2)"
    by (simp add: seq_getitem_def)
  have 2: "index_in_order not_indexable ?t [SStr ''a'', SInt 2, SInt 0] = Inl IndexError"
    by (simp add: seq_getitem_def)
  have 3: "index_in_order not_indexable ?t [SStr ''b'', SInt 0] = Inl TypeError"
    by (simp add: not_indexable_def)
  show ?thesis
    using get_path_params_total[of not_indexable "[SStr ''a'', SInt (- 1), SInt 0]" ?t]
      get_path_params_total[of not_indexable "[SStr ''a'', SInt 2, SInt 0]" ?t]
      get_path_params_total[of not_indexable "[SStr ''b'', SInt 0]" ?t]
    by (simp only: 1 2 3 sum.case)
qed

section \<open>Structural merge of two trees\<close>

text \<open>
  \<^verbatim>\<open>
  def merge_params(a, b):
      if isinstance(a, dict) and isinstance(b, dict):
          return {
              key: a[key]
              if key not in b
              else b[key]
              if key not in a
              else merge_params(a[key], b[key])
              for key in set(a) | set(b)
          }
      elif isinstance(a, list) and isinstance(b, list):
          if len(a) != len(b):
              raise ValueError(...)
          return [merge_params(a, b) for a, b in zip(a, b)]
      elif isinstance(a, tuple) and isinstance(b, tuple):
          if len(a) != len(b):
              raise ValueError(...)
          return tuple(merge_params(a, b) for a, b in zip(a, b))
      else:
          raise ValueError(...)
  \<close>
  A comprehension stops at the first element that raises: \<open>collect\<close> turns the
  list of the elements' results into the result of the comprehension. Python does not
  fix the order in which \<open>set(a) | set(b)\<close> is iterated; \<open>union_keys\<close> takes
  the keys of \<open>a\<close> and then the new keys of \<open>b\<close>, and nothing below depends on
  that choice but the order of the entries of the result. The three \<open>raise\<close>
  statements differ in their message only, which is not modelled. A key of the union is
  a key of \<open>a\<close> or of \<open>b\<close>, so the \<open>KeyError\<close> of \<open>a[key]\<close> cannot
  happen (\<open>merge_params_error\<close>).
\<close>

fun collect :: "('err + 'r) list \<Rightarrow> 'err + 'r list" where
  "collect [] = Inr []"
| "collect (r # rs) =
     (case r of
        Inl e \<Rightarrow> Inl e
      | Inr x \<Rightarrow> (case collect rs of Inl e \<Rightarrow> Inl e | Inr xs \<Rightarrow> Inr (x # xs)))"

definition union_keys :: "('k, 'v) dict \<Rightarrow> ('k, 'v) dict \<Rightarrow> 'k list" where
  "union_keys a b = map fst a @ filter (\<lambda>k. k \<notin> fst ` set a) (map fst b)"

lemma dict_get_size:
  "dict_get d k = Some (x :: 'a pytree) \<Longrightarrow> size x < Suc (size_list (size_prod (\<lambda>_. 0) size) d)"
  by (induction d) (auto split: if_splits)

lemma elem_size:
  "x \<in> set xs \<Longrightarrow> size (x :: 'a pytree) < Suc (size_list size xs)"
  by (induction xs) auto

lemma zip_size1:
  "(x, y) \<in> set (zip a b) \<Longrightarrow> size (x :: 'a pytree) < Suc (size_list size a)"
  by (rule elem_size) (rule set_zip_leftD)

function merge_params :: "'a pytree \<Rightarrow> 'a pytree \<Rightarrow> py_error + 'a pytree" where
  "merge_params (PDict a) (PDict b) =
     (case collect (map (\<lambda>key.
             case dict_get b key of
               None \<Rightarrow> (case dict_get a key of None \<Rightarrow> Inl KeyError | Some x \<Rightarrow> Inr (key, x))
             | Some y \<Rightarrow>
                 (case dict_get a key of
                    None \<Rightarrow> Inr (key, y)
                  | Some x \<Rightarrow> (case merge_params x y of Inl e \<Rightarrow> Inl e | Inr m \<Rightarrow> Inr (key, m))))
           (union_keys a b)) of
        Inl e \<Rightarrow> Inl e
      | Inr kvs \<Rightarrow> Inr (PDict kvs))"
| "merge_params (PList a) (PList b) =
     (if length a \<noteq> length b then Inl ValueError
      else case collect (map (\<lambda>(x, y). merge_params x y) (zip a b)) of
             Inl e \<Rightarrow> Inl e
           | Inr ms \<Rightarrow> Inr (PList ms))"
| "merge_params (PTuple a) (PTuple b) =
     (if length a \<noteq> length b then Inl ValueError
      else case collect (map (\<lambda>(x, y). merge_params x y) (zip a b)) of
             Inl e \<Rightarrow> Inl e
           | Inr ms \<Rightarrow> Inr (PTuple ms))"
| "merge_params (Leaf x) b = Inl ValueError"
| "merge_params (PDict a) (Leaf y) = Inl ValueError"
| "merge_params (PDict a) (PList b) = Inl ValueError"
| "merge_params (PDict a) (PTuple b) = Inl ValueError"
| "merge_params (PList a) (Leaf y) = Inl ValueError"
| "merge_params (PList a) (PDict b) = Inl ValueError"
| "merge_params (PList a) (PTuple b) = Inl ValueError"
| "merge_params (PTuple a) (Leaf y) = Inl ValueError"
| "merge_params (PTuple a) (PDict b) = Inl ValueError"
| "merge_params (PTuple a) (PList b) = Inl ValueError"
  by pat_completeness auto
termination
  apply (relation "measure (\<lambda>(a, b). size a)")
  apply (auto dest: dict_get_size zip_size1)
  done


lemma collect_map_Inr: "collect (map Inr xs) = Inr xs"
  by (induction xs) auto

lemma collect_Inr_D: "collect rs = Inr xs \<Longrightarrow> rs = map Inr xs"
  by (induction rs arbitrary: xs) (auto split: sum.splits)

lemma collect_Inr_iff: "collect rs = Inr xs \<longleftrightarrow> rs = map Inr xs"
  using collect_map_Inr collect_Inr_D by blast

lemma collect_Inl_iff: "(\<exists>e. collect rs = Inl e) \<longleftrightarrow> (\<exists>r\<in>set rs. \<exists>e. r = Inl e)"
  by (induction rs) (auto split: sum.splits)

lemma dict_get_None_iff: "dict_get d k = None \<longleftrightarrow> k \<notin> fst ` set d"
  by (induction d) (auto split: if_splits)

lemma set_union_keys: "set (union_keys a b) = fst ` set a \<union> fst ` set b"
  by (auto simp: union_keys_def)

text \<open>
  The words of the claim: \<open>subtree_at t p\<close> is the value at path \<open>p\<close> of
  \<open>t\<close>, if \<open>t\<close> has that path; two values \<open>clash\<close> when no merge rule
  applies to them or they are two lists or two tuples of different lengths; two trees are
  in \<open>conflict\<close> when the values at some path they share clash.
\<close>

definition clash :: "'a pytree \<Rightarrow> 'a pytree \<Rightarrow> bool" where
  "clash x y =
     (case (x, y) of
        (PDict a, PDict b) \<Rightarrow> False
      | (PList a, PList b) \<Rightarrow> length a \<noteq> length b
      | (PTuple a, PTuple b) \<Rightarrow> length a \<noteq> length b
      | _ \<Rightarrow> True)"

lemma clash_fails: "clash x y \<Longrightarrow> merge_params x y = Inl ValueError"
  by (cases x; cases y) (auto simp: clash_def)

definition merge_entry :: "(seg, 'a pytree) dict \<Rightarrow> (seg, 'a pytree) dict \<Rightarrow> seg \<Rightarrow> py_error + (seg \<times> 'a pytree)" where
  "merge_entry a b key =
     (case dict_get b key of
        None \<Rightarrow> (case dict_get a key of None \<Rightarrow> Inl KeyError | Some x \<Rightarrow> Inr (key, x))
      | Some y \<Rightarrow>
          (case dict_get a key of
             None \<Rightarrow> Inr (key, y)
           | Some x \<Rightarrow> (case merge_params x y of Inl e \<Rightarrow> Inl e | Inr m \<Rightarrow> Inr (key, m))))"

lemma merge_params_dict:
  "merge_params (PDict a) (PDict b) =
     (case collect (map (merge_entry a b) (union_keys a b)) of
        Inl e \<Rightarrow> Inl e
      | Inr kvs \<Rightarrow> Inr (PDict kvs))"
  unfolding merge_entry_def by simp

declare merge_params.simps(1) [simp del]

lemma merge_entry_Inl_iff:
  assumes "key \<in> set (union_keys a b)"
  shows "(\<exists>e. merge_entry a b key = Inl e) \<longleftrightarrow>
     (\<exists>x y. dict_get a key = Some x \<and> dict_get b key = Some y \<and> (\<exists>e. merge_params x y = Inl e))"
proof -
  from assms have "dict_get a key \<noteq> None \<or> dict_get b key \<noteq> None"
    by (auto simp: set_union_keys dict_get_None_iff)
  then show ?thesis
    by (auto simp: merge_entry_def split: option.splits sum.splits)
qed

lemma dict_fail_iff:
  "(\<exists>e. merge_params (PDict a) (PDict b) = Inl e) \<longleftrightarrow>
     (\<exists>k x y. dict_get a k = Some x \<and> dict_get b k = Some y \<and> (\<exists>e. merge_params x y = Inl e))"
proof -
  have "(\<exists>e. merge_params (PDict a) (PDict b) = Inl e) \<longleftrightarrow>
      (\<exists>e. collect (map (merge_entry a b) (union_keys a b)) = Inl e)"
    by (auto simp: merge_params_dict split: sum.splits)
  also have "\<dots> \<longleftrightarrow> (\<exists>key\<in>set (union_keys a b). \<exists>e. merge_entry a b key = Inl e)"
    by (auto simp: collect_Inl_iff)
  also have "\<dots> \<longleftrightarrow> (\<exists>key\<in>set (union_keys a b). \<exists>x y. dict_get a key = Some x \<and>
      dict_get b key = Some y \<and> (\<exists>e. merge_params x y = Inl e))"
    using merge_entry_Inl_iff[of _ a b] by blast
  also have "\<dots> \<longleftrightarrow> (\<exists>k x y. dict_get a k = Some x \<and> dict_get b k = Some y \<and>
      (\<exists>e. merge_params x y = Inl e))"
  proof -
    have "\<And>k x. dict_get a k = Some x \<Longrightarrow> k \<in> set (union_keys a b)"
      by (metis UnCI dict_get_None_iff option.distinct(1) set_union_keys)
    then show ?thesis by blast
  qed
  finally show ?thesis .
qed

lemma seq_fail_iff:
  "(\<exists>e. collect (map (\<lambda>(x, y). merge_params x y) (zip a b)) = Inl e) \<longleftrightarrow>
     (\<exists>i. i < length a \<and> i < length b \<and> (\<exists>e. merge_params (a ! i) (b ! i) = Inl e))"
proof -
  have "(\<exists>r\<in>set (zip a b). \<exists>e. (case r of (x, y) \<Rightarrow> merge_params x y) = Inl e) \<longleftrightarrow>
      (\<exists>i. i < length a \<and> i < length b \<and> (\<exists>e. merge_params (a ! i) (b ! i) = Inl e))"
    (is "?L \<longleftrightarrow> ?R")
  proof
    assume ?L
    then obtain x y e where "(x, y) \<in> set (zip a b)" "merge_params x y = Inl e" by auto
    then show ?R by (auto simp: in_set_zip)
  next
    assume ?R
    then obtain i e where i: "i < length a" "i < length b" "merge_params (a ! i) (b ! i) = Inl e"
      by blast
    then have "(a ! i, b ! i) \<in> set (zip a b)" by (auto simp: in_set_zip)
    with i(3) show ?L by force
  qed
  then show ?thesis by (simp add: collect_Inl_iff)
qed

lemma list_fail_iff:
  "(\<exists>e. merge_params (PList a) (PList b) = Inl e) \<longleftrightarrow>
     length a \<noteq> length b \<or> (\<exists>i<length a. \<exists>e. merge_params (a ! i) (b ! i) = Inl e)"
  using seq_fail_iff[of a b] by (auto split: sum.splits)

lemma tuple_fail_iff:
  "(\<exists>e. merge_params (PTuple a) (PTuple b) = Inl e) \<longleftrightarrow>
     length a \<noteq> length b \<or> (\<exists>i<length a. \<exists>e. merge_params (a ! i) (b ! i) = Inl e)"
  using seq_fail_iff[of a b] by (auto split: sum.splits)

fun subtree_at :: "'a pytree \<Rightarrow> path \<Rightarrow> 'a pytree option" where
  "subtree_at t [] = Some t"
| "subtree_at (PDict d) (k # p) =
     (case dict_get d k of None \<Rightarrow> None | Some x \<Rightarrow> subtree_at x p)"
| "subtree_at (PList xs) (SInt i # p) =
     (if 0 \<le> i \<and> nat i < length xs then subtree_at (xs ! nat i) p else None)"
| "subtree_at (PTuple xs) (SInt i # p) =
     (if 0 \<le> i \<and> nat i < length xs then subtree_at (xs ! nat i) p else None)"
| "subtree_at t (k # p) = None"

definition conflict :: "'a pytree \<Rightarrow> 'a pytree \<Rightarrow> bool" where
  "conflict a b \<longleftrightarrow>
     (\<exists>p x y. subtree_at a p = Some x \<and> subtree_at b p = Some y \<and> clash x y)"

lemma conflictI: "subtree_at a p = Some x \<Longrightarrow> subtree_at b p = Some y \<Longrightarrow> clash x y \<Longrightarrow> conflict a b"
  unfolding conflict_def by blast

lemma clash_conflict: "clash a b \<Longrightarrow> conflict a b"
  by (rule conflictI[of _ "[]"]) simp_all

lemma conflict_fails: "conflict a b \<Longrightarrow> \<exists>e. merge_params a b = Inl e"
proof -
  have "subtree_at a p = Some x \<Longrightarrow> subtree_at b p = Some y \<Longrightarrow> clash x y \<Longrightarrow>
      \<exists>e. merge_params a b = Inl e" for p x y
  proof (induction p arbitrary: a b)
    case Nil
    then show ?case by (simp add: clash_fails)
  next
    case (Cons k p)
    show ?case
    proof (cases "clash a b")
      case True
      then show ?thesis by (simp add: clash_fails)
    next
      case False
      then consider
        (dict) da db where "a = PDict da" "b = PDict db"
        | (list) xs ys where "a = PList xs" "b = PList ys" "length xs = length ys"
        | (tuple) xs ys where "a = PTuple xs" "b = PTuple ys" "length xs = length ys"
        by (cases a; cases b) (auto simp: clash_def)
      then show ?thesis
      proof cases
        case dict
        with Cons.prems obtain a' b' where
          g: "dict_get da k = Some a'" "dict_get db k = Some b'"
          and s: "subtree_at a' p = Some x" "subtree_at b' p = Some y"
          by (auto split: option.splits)
        from Cons.IH[OF s Cons.prems(3)] g show ?thesis
          unfolding dict dict_fail_iff by blast
      next
        case list
        with Cons.prems obtain i where k: "k = SInt i" by (cases k) auto
        with list Cons.prems have i: "0 \<le> i" "nat i < length xs"
          and s: "subtree_at (xs ! nat i) p = Some x" "subtree_at (ys ! nat i) p = Some y"
          by (auto split: if_splits)
        from Cons.IH[OF s Cons.prems(3)] i show ?thesis
          unfolding list list_fail_iff by blast
      next
        case tuple
        with Cons.prems obtain i where k: "k = SInt i" by (cases k) auto
        with tuple Cons.prems have i: "0 \<le> i" "nat i < length xs"
          and s: "subtree_at (xs ! nat i) p = Some x" "subtree_at (ys ! nat i) p = Some y"
          by (auto split: if_splits)
        from Cons.IH[OF s Cons.prems(3)] i show ?thesis
          unfolding tuple tuple_fail_iff by blast
      qed
    qed
  qed
  then show "conflict a b \<Longrightarrow> \<exists>e. merge_params a b = Inl e"
    unfolding conflict_def by blast
qed

lemma fails_conflict: "\<exists>e. merge_params a b = Inl e \<Longrightarrow> conflict a b"
proof (induction a b rule: merge_params.induct)
  case (1 a b)
  from "1.prems" obtain k x y where
    g: "dict_get a k = Some x" "dict_get b k = Some y" and f: "\<exists>e. merge_params x y = Inl e"
    unfolding dict_fail_iff by blast
  have "k \<in> set (union_keys a b)"
    using g by (metis UnCI dict_get_None_iff option.distinct(1) set_union_keys)
  from "1.IH"[OF this g(2) g(1) f] obtain p x' y' where
    "subtree_at x p = Some x'" "subtree_at y p = Some y'" "clash x' y'"
    unfolding conflict_def by blast
  then have "subtree_at (PDict a) (k # p) = Some x'" "subtree_at (PDict b) (k # p) = Some y'"
    using g by simp_all
  then show ?case using \<open>clash x' y'\<close> by (rule conflictI)
next
  case (2 a b)
  show ?case
  proof (cases "length a = length b")
    case False
    then have "clash (PList a) (PList b)" by (simp add: clash_def)
    then show ?thesis by (intro conflictI[of _ "[]"]) simp_all
  next
    case True
    with "2.prems" obtain i where i: "i < length a" and f: "\<exists>e. merge_params (a ! i) (b ! i) = Inl e"
      unfolding list_fail_iff by blast
    have z: "(a ! i, b ! i) \<in> set (zip a b)"
      using i True by (auto simp: in_set_zip)
    from "2.IH"[OF _ z refl f] True obtain p x' y' where
      s: "subtree_at (a ! i) p = Some x'" "subtree_at (b ! i) p = Some y'" "clash x' y'"
      unfolding conflict_def by auto
    have "subtree_at (PList a) (SInt (int i) # p) = Some x'"
      "subtree_at (PList b) (SInt (int i) # p) = Some y'"
      using s i True by simp_all
    then show ?thesis using \<open>clash x' y'\<close> by (rule conflictI)
  qed
next
  case (3 a b)
  show ?case
  proof (cases "length a = length b")
    case False
    then have "clash (PTuple a) (PTuple b)" by (simp add: clash_def)
    then show ?thesis by (intro conflictI[of _ "[]"]) simp_all
  next
    case True
    with "3.prems" obtain i where i: "i < length a" and f: "\<exists>e. merge_params (a ! i) (b ! i) = Inl e"
      unfolding tuple_fail_iff by blast
    have z: "(a ! i, b ! i) \<in> set (zip a b)"
      using i True by (auto simp: in_set_zip)
    from "3.IH"[OF _ z refl f] True obtain p x' y' where
      s: "subtree_at (a ! i) p = Some x'" "subtree_at (b ! i) p = Some y'" "clash x' y'"
      unfolding conflict_def by auto
    have "subtree_at (PTuple a) (SInt (int i) # p) = Some x'"
      "subtree_at (PTuple b) (SInt (int i) # p) = Some y'"
      using s i True by simp_all
    then show ?thesis using \<open>clash x' y'\<close> by (rule conflictI)
  qed
qed (auto intro!: clash_conflict simp: clash_def split: pytree.splits)

lemma merge_entry_key: "merge_entry a b key = Inr kv \<Longrightarrow> fst kv = key"
  by (auto simp: merge_entry_def split: option.splits sum.splits)

lemma dict_get_of_entries:
  assumes "map f ks = map Inr d" "\<And>k kv. f k = Inr kv \<Longrightarrow> fst kv = k" "k \<in> set ks"
  shows "\<exists>v. f k = Inr (k, v) \<and> dict_get d k = Some v"
  using assms(1,3)
proof (induction ks arbitrary: d)
  case Nil
  then show ?case by simp
next
  case (Cons k' ks)
  then obtain kv d' where d: "d = kv # d'" "f k' = Inr kv" "map f ks = map Inr d'"
    by (cases d) auto
  from assms(2)[OF d(2)] obtain v' where kv: "kv = (k', v')" by (cases kv) auto
  show ?case
  proof (cases "k' = k")
    case True
    with d kv show ?thesis by simp
  next
    case False
    with Cons.prems have "k \<in> set ks" by simp
    from Cons.IH[OF d(3) this] False d kv show ?thesis by simp
  qed
qed

lemma keys_of_entries:
  assumes "map f ks = map Inr d" "\<And>k kv. f k = Inr kv \<Longrightarrow> fst kv = k"
  shows "map fst d = ks"
  using assms(1)
proof (induction ks arbitrary: d)
  case Nil
  then show ?case by simp
next
  case (Cons k' ks)
  then obtain kv d' where d: "d = kv # d'" "f k' = Inr kv" "map f ks = map Inr d'"
    by (cases d) auto
  from assms(2)[OF d(2)] Cons.IH[OF d(3)] d(1) show ?case by simp
qed

lemma dict_success:
  assumes "merge_params (PDict a) (PDict b) = Inr r"
  shows "\<exists>d. r = PDict d \<and> map fst d = union_keys a b \<and>
     (\<forall>k x. dict_get a k = Some x \<and> dict_get b k = None \<longrightarrow> dict_get d k = Some x) \<and>
     (\<forall>k y. dict_get a k = None \<and> dict_get b k = Some y \<longrightarrow> dict_get d k = Some y) \<and>
     (\<forall>k x y. dict_get a k = Some x \<and> dict_get b k = Some y \<longrightarrow>
        (\<exists>m. merge_params x y = Inr m \<and> dict_get d k = Some m))"
proof -
  from assms obtain d where r: "r = PDict d"
    and s: "collect (map (merge_entry a b) (union_keys a b)) = Inr d"
    by (auto simp: merge_params_dict split: sum.splits)
  from s have m: "map (merge_entry a b) (union_keys a b) = map Inr d"
    by (rule collect_Inr_D)
  have keys: "map fst d = union_keys a b"
    using m merge_entry_key by (rule keys_of_entries)
  have get: "\<exists>v. merge_entry a b k = Inr (k, v) \<and> dict_get d k = Some v"
    if "k \<in> set (union_keys a b)" for k
    using m merge_entry_key that by (rule dict_get_of_entries)
  have ina: "k \<in> set (union_keys a b)" if "dict_get a k = Some x" for k x
    using that by (metis UnCI dict_get_None_iff option.distinct(1) set_union_keys)
  have inb: "k \<in> set (union_keys a b)" if "dict_get b k = Some y" for k y
    using that by (metis UnCI dict_get_None_iff option.distinct(1) set_union_keys)
  have 1: "dict_get d k = Some x" if "dict_get a k = Some x \<and> dict_get b k = None" for k x
    using get[OF ina[of k x]] that by (auto simp: merge_entry_def)
  have 2: "dict_get d k = Some y" if "dict_get a k = None \<and> dict_get b k = Some y" for k y
    using get[OF inb[of k y]] that by (auto simp: merge_entry_def)
  have 3: "\<exists>m. merge_params x y = Inr m \<and> dict_get d k = Some m"
    if "dict_get a k = Some x \<and> dict_get b k = Some y" for k x y
    using get[OF ina[of k x]] that by (auto simp: merge_entry_def split: sum.splits)
  from r keys 1 2 3 show ?thesis by blast
qed

lemma seq_success:
  assumes "collect (map (\<lambda>(x, y). merge_params x y) (zip a b)) = Inr ms" "length a = length b"
  shows "length ms = length a \<and> (\<forall>i<length a. merge_params (a ! i) (b ! i) = Inr (ms ! i))"
proof -
  from assms(1) have m: "map (\<lambda>(x, y). merge_params x y) (zip a b) = map Inr ms"
    by (rule collect_Inr_D)
  then have l: "length ms = length a"
    using assms(2) by (metis length_map length_zip min.idem)
  have "merge_params (a ! i) (b ! i) = Inr (ms ! i)" if "i < length a" for i
  proof -
    have "map (\<lambda>(x, y). merge_params x y) (zip a b) ! i = map Inr ms ! i"
      using m by simp
    then show ?thesis using that l assms(2) by simp
  qed
  with l show ?thesis by blast
qed

lemma list_success:
  assumes "merge_params (PList a) (PList b) = Inr r"
  shows "\<exists>ms. r = PList ms \<and> length a = length b \<and> length ms = length a \<and>
     (\<forall>i<length a. merge_params (a ! i) (b ! i) = Inr (ms ! i))"
  using assms seq_success[of a b] by (auto split: if_splits sum.splits)

lemma tuple_success:
  assumes "merge_params (PTuple a) (PTuple b) = Inr r"
  shows "\<exists>ms. r = PTuple ms \<and> length a = length b \<and> length ms = length a \<and>
     (\<forall>i<length a. merge_params (a ! i) (b ! i) = Inr (ms ! i))"
  using assms seq_success[of a b] by (auto split: if_splits sum.splits)

lemma collect_Inl_D: "collect rs = Inl e \<Longrightarrow> Inl e \<in> set rs"
  by (induction rs) (auto split: sum.splits)

lemma merge_params_error: "merge_params a b = Inl e \<Longrightarrow> e = ValueError"
proof (induction a b arbitrary: e rule: merge_params.induct)
  case (1 a b)
  from "1.prems" have "collect (map (merge_entry a b) (union_keys a b)) = Inl e"
    by (auto simp: merge_params_dict split: sum.splits)
  then have "Inl e \<in> set (map (merge_entry a b) (union_keys a b))"
    by (rule collect_Inl_D)
  then obtain k where k: "k \<in> set (union_keys a b)" "merge_entry a b k = Inl e"
    by auto
  from k(1) have "dict_get a k \<noteq> None \<or> dict_get b k \<noteq> None"
    by (auto simp: set_union_keys dict_get_None_iff)
  with k(2) obtain x y where "dict_get a k = Some x" "dict_get b k = Some y" "merge_params x y = Inl e"
    by (auto simp: merge_entry_def split: option.splits sum.splits)
  with "1.IH"[OF k(1)] show ?case by blast
next
  case (2 a b)
  show ?case
  proof (cases "length a = length b")
    case True
    with "2.prems" have "collect (map (\<lambda>(x, y). merge_params x y) (zip a b)) = Inl e"
      by (auto split: sum.splits)
    then have "Inl e \<in> set (map (\<lambda>(x, y). merge_params x y) (zip a b))"
      by (rule collect_Inl_D)
    then obtain x y where "(x, y) \<in> set (zip a b)" "merge_params x y = Inl e"
      by auto
    with "2.IH"[of "(x, y)" x y e] True show ?thesis by simp
  next
    case False
    with "2.prems" show ?thesis by simp
  qed
next
  case (3 a b)
  show ?case
  proof (cases "length a = length b")
    case True
    with "3.prems" have "collect (map (\<lambda>(x, y). merge_params x y) (zip a b)) = Inl e"
      by (auto split: sum.splits)
    then have "Inl e \<in> set (map (\<lambda>(x, y). merge_params x y) (zip a b))"
      by (rule collect_Inl_D)
    then obtain x y where "(x, y) \<in> set (zip a b)" "merge_params x y = Inl e"
      by auto
    with "3.IH"[of "(x, y)" x y e] True show ?thesis by simp
  next
    case False
    with "3.prems" show ?thesis by simp
  qed
qed simp_all

text \<open>
  C6. The structural merge of two trees fails exactly when the trees are incompatible at
  some path they share: two lists or two tuples of different lengths there, or two values
  that no merge rule covers (anything but dict with dict, list with list, tuple with
  tuple; two leaves among them). The failure is always a \<open>ValueError\<close>. Otherwise
  the result of merging two dicts is a dict with every key of both, the value of a key of
  one dict only taken from that dict and the values of a shared key merged recursively;
  the result of merging two lists (two tuples) is the list (tuple) of the merged
  elements.
\<close>

theorem merge_params_fails_iff_conflict:
  "((\<exists>e. merge_params a b = Inl e) \<longleftrightarrow> conflict a b) \<and>
   (\<forall>e. merge_params a b = Inl e \<longrightarrow> e = ValueError) \<and>
   (\<forall>da db r. a = PDict da \<and> b = PDict db \<and> merge_params a b = Inr r \<longrightarrow>
      (\<exists>d. r = PDict d \<and> set (map fst d) = fst ` set da \<union> fst ` set db \<and>
         (\<forall>k x. dict_get da k = Some x \<and> dict_get db k = None \<longrightarrow> dict_get d k = Some x) \<and>
         (\<forall>k y. dict_get da k = None \<and> dict_get db k = Some y \<longrightarrow> dict_get d k = Some y) \<and>
         (\<forall>k x y. dict_get da k = Some x \<and> dict_get db k = Some y \<longrightarrow>
            (\<exists>m. merge_params x y = Inr m \<and> dict_get d k = Some m)))) \<and>
   (\<forall>xs ys r. a = PList xs \<and> b = PList ys \<and> merge_params a b = Inr r \<longrightarrow>
      (\<exists>ms. r = PList ms \<and> length xs = length ys \<and> length ms = length xs \<and>
         (\<forall>i<length xs. merge_params (xs ! i) (ys ! i) = Inr (ms ! i)))) \<and>
   (\<forall>xs ys r. a = PTuple xs \<and> b = PTuple ys \<and> merge_params a b = Inr r \<longrightarrow>
      (\<exists>ms. r = PTuple ms \<and> length xs = length ys \<and> length ms = length xs \<and>
         (\<forall>i<length xs. merge_params (xs ! i) (ys ! i) = Inr (ms ! i))))"
proof (intro conjI allI impI)
  show "(\<exists>e. merge_params a b = Inl e) \<longleftrightarrow> conflict a b"
    using conflict_fails fails_conflict by blast
next
  fix e assume "merge_params a b = Inl e"
  then show "e = ValueError" by (rule merge_params_error)
next
  fix da db r
  assume h: "a = PDict da \<and> b = PDict db \<and> merge_params a b = Inr r"
  then have "merge_params (PDict da) (PDict db) = Inr r" by blast
  from dict_success[OF this] obtain d where d: "r = PDict d" "map fst d = union_keys da db"
    "\<forall>k x. dict_get da k = Some x \<and> dict_get db k = None \<longrightarrow> dict_get d k = Some x"
    "\<forall>k y. dict_get da k = None \<and> dict_get db k = Some y \<longrightarrow> dict_get d k = Some y"
    "\<forall>k x y. dict_get da k = Some x \<and> dict_get db k = Some y \<longrightarrow>
        (\<exists>m. merge_params x y = Inr m \<and> dict_get d k = Some m)"
    by blast
  from d(2) have "set (map fst d) = fst ` set da \<union> fst ` set db"
    by (simp only: set_union_keys)
  with d show "\<exists>d. r = PDict d \<and> set (map fst d) = fst ` set da \<union> fst ` set db \<and>
         (\<forall>k x. dict_get da k = Some x \<and> dict_get db k = None \<longrightarrow> dict_get d k = Some x) \<and>
         (\<forall>k y. dict_get da k = None \<and> dict_get db k = Some y \<longrightarrow> dict_get d k = Some y) \<and>
         (\<forall>k x y. dict_get da k = Some x \<and> dict_get db k = Some y \<longrightarrow>
            (\<exists>m. merge_params x y = Inr m \<and> dict_get d k = Some m))"
    by blast
next
  fix xs ys r
  assume "a = PList xs \<and> b = PList ys \<and> merge_params a b = Inr r"
  then have "merge_params (PList xs) (PList ys) = Inr r" by blast
  then show "\<exists>ms. r = PList ms \<and> length xs = length ys \<and> length ms = length xs \<and>
         (\<forall>i<length xs. merge_params (xs ! i) (ys ! i) = Inr (ms ! i))"
    by (rule list_success)
next
  fix xs ys r
  assume "a = PTuple xs \<and> b = PTuple ys \<and> merge_params a b = Inr r"
  then have "merge_params (PTuple xs) (PTuple ys) = Inr r" by blast
  then show "\<exists>ms. r = PTuple ms \<and> length xs = length ys \<and> length ms = length xs \<and>
         (\<forall>i<length xs. merge_params (xs ! i) (ys ! i) = Inr (ms ! i))"
    by (rule tuple_success)
qed

theorem merge_params_fails_iff_conflict_witness:
  "merge_params
     (PDict [(SStr ''a'', PList [Leaf (1::int)]), (SStr ''b'', PDict [(SStr ''c'', Leaf 2)])])
     (PDict [(SStr ''b'', PDict [(SStr ''d'', Leaf 3)]), (SStr ''e'', Leaf 9)])
   = Inr (PDict [(SStr ''a'', PList [Leaf 1]),
                 (SStr ''b'', PDict [(SStr ''c'', Leaf 2), (SStr ''d'', Leaf 3)]),
                 (SStr ''e'', Leaf 9)]) \<and>
   \<not> conflict
     (PDict [(SStr ''a'', PList [Leaf (1::int)]), (SStr ''b'', PDict [(SStr ''c'', Leaf 2)])])
     (PDict [(SStr ''b'', PDict [(SStr ''d'', Leaf 3)]), (SStr ''e'', Leaf 9)]) \<and>
   merge_params (PDict [(SStr ''w'', PList [Leaf (1::int)])])
                (PDict [(SStr ''w'', PList [Leaf 1, Leaf 2])]) = Inl ValueError \<and>
   conflict (PDict [(SStr ''w'', PList [Leaf (1::int)])])
            (PDict [(SStr ''w'', PList [Leaf 1, Leaf 2])])"
proof -
  let ?a = "PDict [(SStr ''a'', PList [Leaf (1::int)]), (SStr ''b'', PDict [(SStr ''c'', Leaf 2)])]"
  let ?b = "PDict [(SStr ''b'', PDict [(SStr ''d'', Leaf 3)]), (SStr ''e'', Leaf (9::int))]"
  let ?c = "PDict [(SStr ''w'', PList [Leaf (1::int)])]"
  let ?d = "PDict [(SStr ''w'', PList [Leaf (1::int), Leaf 2])]"
  have 1: "merge_params ?a ?b
      = Inr (PDict [(SStr ''a'', PList [Leaf 1]),
                 (SStr ''b'', PDict [(SStr ''c'', Leaf 2), (SStr ''d'', Leaf 3)]),
                 (SStr ''e'', Leaf 9)])"
    by (simp add: merge_params_dict merge_entry_def union_keys_def)
  have 2: "merge_params ?c ?d = Inl ValueError"
    by (simp add: merge_params_dict merge_entry_def union_keys_def)
  from 1 merge_params_fails_iff_conflict[of ?a ?b] have 3: "\<not> conflict ?a ?b"
    by simp
  from 2 merge_params_fails_iff_conflict[of ?c ?d] have 4: "conflict ?c ?d"
    by simp
  from 1 2 3 4 show ?thesis by blast
qed

section \<open>The dependency-injecting wrapper\<close>

text \<open>
  \<^verbatim>\<open>
  def get_signature_f_recursive(f):
      if hasattr(f, "_signature_f"):
          return get_signature_f_recursive(f._signature_f)
      else:
          return f

  def inject_dependencies(f, signature_f=None, rename=None):
      if signature_f is None:
          signature_f = f
      signature_f = get_signature_f_recursive(signature_f)
      f_params = get_function_args(signature_f)

      @functools.wraps(signature_f)
      def wrapper(*args, **kwargs):
          n_args = len(args)
          arg_names = [arg.name for arg in f_params[:n_args]]
          kwarg_names = [arg.name for arg in f_params[n_args:]]
          if rename:
              for old, new in rename.items():
                  if old in kwargs:
                      kwargs[new] = kwargs.pop(old)
          if not any(arg.kind == inspect.Parameter.VAR_KEYWORD for arg in f_params):
              kwargs = {
                  arg: kwargs[arg]
                  for arg in kwarg_names
                  if arg not in arg_names and arg in kwargs
              }
          return f(*args, **kwargs)
      return wrapper

  def get_function_args(f):
      return list(inspect.signature(f).parameters.values())
  \<close>
  A callable is what the wrapper needs of one: what calling it with positional and
  keyword arguments gives, the parameters its signature declares (name and kind, in
  order), and its \<open>_signature_f\<close> attribute when it has one. The keyword arguments
  are a dict. \<open>rename_key\<close> is one round of the loop over \<open>rename.items()\<close>
  (\<open>dict_delete\<close> with the value looked up is \<open>kwargs.pop(old)\<close>),
  \<open>apply_rename\<close> the whole \<open>if rename:\<close> block (an empty dict is falsy, and
  the loop over it does nothing), \<open>declared_only\<close> the dict comprehension.
\<close>

datatype param_kind =
  POSITIONAL_ONLY | POSITIONAL_OR_KEYWORD | VAR_POSITIONAL | KEYWORD_ONLY | VAR_KEYWORD

record parameter =
  param_name :: string
  param_kind :: param_kind

fun dict_delete :: "('k, 'v) dict \<Rightarrow> 'k \<Rightarrow> ('k, 'v) dict" where
  "dict_delete [] k = []"
| "dict_delete ((k', v) # d) k = (if k' = k then d else (k', v) # dict_delete d k)"

definition rename_key :: "(string, 'v) dict \<Rightarrow> string \<times> string \<Rightarrow> (string, 'v) dict" where
  "rename_key kwargs r =
     (case r of (old, new) \<Rightarrow>
        (case dict_get kwargs old of
           None \<Rightarrow> kwargs
         | Some v \<Rightarrow> dict_setitem (dict_delete kwargs old) new v))"

definition apply_rename :: "(string, string) dict option \<Rightarrow> (string, 'v) dict \<Rightarrow> (string, 'v) dict" where
  "apply_rename rename kwargs =
     (case rename of None \<Rightarrow> kwargs | Some r \<Rightarrow> foldl rename_key kwargs r)"

definition declared_only :: "string list \<Rightarrow> string list \<Rightarrow> (string, 'v) dict \<Rightarrow> (string, 'v) dict" where
  "declared_only arg_names kwarg_names kwargs =
     foldl (\<lambda>d arg. case dict_get kwargs arg of
                       None \<Rightarrow> d
                     | Some v \<Rightarrow> if arg \<in> set arg_names then d else dict_setitem d arg v)
           [] kwarg_names"

definition wrapper ::
  "('p list \<Rightarrow> (string, 'v) dict \<Rightarrow> 'r) \<Rightarrow> parameter list \<Rightarrow> (string, string) dict option \<Rightarrow>
   'p list \<Rightarrow> (string, 'v) dict \<Rightarrow> 'r" where
  "wrapper f f_params rename args kwargs =
     (let n_args = length args;
          arg_names = map param_name (take n_args f_params);
          kwarg_names = map param_name (drop n_args f_params);
          kwargs1 = apply_rename rename kwargs;
          kwargs2 = (if \<not> list_ex (\<lambda>arg. param_kind arg = VAR_KEYWORD) f_params
                     then declared_only arg_names kwarg_names kwargs1
                     else kwargs1)
      in f args kwargs2)"

datatype ('p, 'v, 'r) callable =
  Callable (call: "'p list \<Rightarrow> (string, 'v) dict \<Rightarrow> 'r")
           (parameters: "parameter list")
           (attr_signature_f: "('p, 'v, 'r) callable option")

fun get_signature_f_recursive :: "('p, 'v, 'r) callable \<Rightarrow> ('p, 'v, 'r) callable" where
  "get_signature_f_recursive (Callable c ps (Some g)) = get_signature_f_recursive g"
| "get_signature_f_recursive (Callable c ps None) = Callable c ps None"

definition get_function_args :: "('p, 'v, 'r) callable \<Rightarrow> parameter list" where
  "get_function_args f = parameters f"

definition inject_dependencies ::
  "('p, 'v, 'r) callable \<Rightarrow> ('p, 'v, 'r) callable option \<Rightarrow> (string, string) dict option \<Rightarrow>
   ('p list \<Rightarrow> (string, 'v) dict \<Rightarrow> 'r)" where
  "inject_dependencies f signature_f rename =
     (let signature_f = (case signature_f of None \<Rightarrow> f | Some g \<Rightarrow> g);
          signature_f = get_signature_f_recursive signature_f;
          f_params = get_function_args signature_f
      in wrapper (call f) f_params rename)"

text \<open>
  The parameters the reference signature declares, as \<open>inject_dependencies\<close>
  finds them.
\<close>

definition reference_params :: "('p, 'v, 'r) callable \<Rightarrow> ('p, 'v, 'r) callable option \<Rightarrow> parameter list" where
  "reference_params f signature_f =
     parameters (get_signature_f_recursive (case signature_f of None \<Rightarrow> f | Some g \<Rightarrow> g))"

text \<open>
  The call the adapter makes of its target, as the pair of the positional arguments and
  the keyword arguments it passes: the wrapper run on a target that returns just that.
\<close>

definition call_made ::
  "parameter list \<Rightarrow> (string, string) dict option \<Rightarrow> 'p list \<Rightarrow> (string, 'v) dict \<Rightarrow>
   'p list \<times> (string, 'v) dict" where
  "call_made f_params rename args kwargs = wrapper Pair f_params rename args kwargs"

lemma dict_get_setitem:
  "dict_get (dict_setitem d k v) k' = (if k' = k then Some v else dict_get d k')"
  by (induction d) auto

lemma dict_get_delete:
  "distinct (map fst d) \<Longrightarrow> dict_get (dict_delete d k) k' = (if k' = k then None else dict_get d k')"
proof (induction d)
  case Nil
  then show ?case by simp
next
  case (Cons kv d)
  obtain a b where kv: "kv = (a, b)" by (cases kv)
  from Cons.prems kv have "dict_get d a = None"
    by (simp add: dict_get_None_iff)
  with Cons kv show ?case by auto
qed

lemma keys_dict_delete: "map fst (dict_delete d k) = remove1 k (map fst d)"
  by (induction d) auto

lemma dict_get_declared_only_aux:
  "dict_get (foldl (\<lambda>d arg. case dict_get kwargs arg of
                       None \<Rightarrow> d
                     | Some v \<Rightarrow> if arg \<in> set arg_names then d else dict_setitem d arg v)
           acc kwarg_names) k =
   (if k \<in> set kwarg_names \<and> k \<notin> set arg_names \<and> dict_get kwargs k \<noteq> None
    then dict_get kwargs k else dict_get acc k)"
  by (induction kwarg_names arbitrary: acc) (auto simp: dict_get_setitem split: option.splits)

lemma dict_get_declared_only:
  "dict_get (declared_only arg_names kwarg_names kwargs) k =
   (if k \<in> set kwarg_names \<and> k \<notin> set arg_names then dict_get kwargs k else None)"
  unfolding declared_only_def by (auto simp: dict_get_declared_only_aux)

lemma keys_declared_only_aux:
  assumes "distinct kwarg_names" "set kwarg_names \<inter> set arg_names = {}"
    "set kwarg_names \<inter> fst ` set acc = {}"
  shows "map fst (foldl (\<lambda>d arg. case dict_get kwargs arg of
                       None \<Rightarrow> d
                     | Some v \<Rightarrow> if arg \<in> set arg_names then d else dict_setitem d arg v)
           acc kwarg_names) =
     map fst acc @ filter (\<lambda>k. dict_get kwargs k \<noteq> None) kwarg_names"
  using assms
proof (induction kwarg_names arbitrary: acc)
  case Nil
  then show ?case by simp
next
  case (Cons a ks)
  show ?case
  proof (cases "dict_get kwargs a")
    case None
    with Cons.prems show ?thesis by (simp add: Cons.IH)
  next
    case (Some v)
    from Cons.prems have a: "a \<notin> set arg_names" "a \<notin> fst ` set acc" by auto
    have "set ks \<inter> fst ` set (dict_setitem acc a v) = {}"
    proof -
      have "fst ` set (dict_setitem acc a v) = set (map fst (dict_setitem acc a v))" by simp
      also have "\<dots> = insert a (fst ` set acc)"
        using a by (simp add: keys_dict_setitem)
      finally show ?thesis using Cons.prems by auto
    qed
    with Cons.prems have
      "map fst (foldl (\<lambda>d arg. case dict_get kwargs arg of
                       None \<Rightarrow> d
                     | Some v \<Rightarrow> if arg \<in> set arg_names then d else dict_setitem d arg v)
           (dict_setitem acc a v) ks) =
       map fst (dict_setitem acc a v) @ filter (\<lambda>k. dict_get kwargs k \<noteq> None) ks"
      by (intro Cons.IH) auto
    with Some a show ?thesis by (simp add: keys_dict_setitem)
  qed
qed

lemma keys_declared_only:
  assumes "distinct (arg_names @ kwarg_names)"
  shows "map fst (declared_only arg_names kwarg_names kwargs) =
     filter (\<lambda>k. dict_get kwargs k \<noteq> None) kwarg_names"
  unfolding declared_only_def
  using keys_declared_only_aux[of kwarg_names arg_names "[]" kwargs] assms by auto

lemma dict_get_rename_key:
  assumes "distinct (map fst kwargs)"
  shows "dict_get (rename_key kwargs (old, new)) k =
     (case dict_get kwargs old of
        None \<Rightarrow> dict_get kwargs k
      | Some v \<Rightarrow> if k = new then Some v else if k = old then None else dict_get kwargs k)"
  using assms by (auto simp: rename_key_def dict_get_setitem dict_get_delete split: option.splits)

text \<open>
  What the wrapper passes to its target. The positional arguments go through unchanged
  and in order. When the reference signature declares no catch-all keyword parameter, the
  keyword arguments passed are the entries of the renamed bag whose keys are names of
  parameters declared after the first \<open>len(args)\<close> ones, in the order of the
  signature; every other key is dropped, and nothing is raised for it. When the signature
  declares a catch-all keyword parameter the whole renamed bag is passed. Renaming
  \<open>old\<close> to \<open>new\<close> moves the value of \<open>old\<close>, when the bag has it,
  to \<open>new\<close>, and leaves the bag alone otherwise.
\<close>

lemma wrapper_forwards_by_position:
  "inject_dependencies f signature_f rename args kwargs =
     (case call_made (reference_params f signature_f) rename args kwargs of (a, kw) \<Rightarrow> call f a kw) \<and>
   fst (call_made f_params rename args kwargs) = args \<and>
   (list_ex (\<lambda>p. param_kind p = VAR_KEYWORD) f_params \<longrightarrow>
      snd (call_made f_params rename args kwargs) = apply_rename rename kwargs) \<and>
   (\<not> list_ex (\<lambda>p. param_kind p = VAR_KEYWORD) f_params \<longrightarrow>
      (\<forall>k. dict_get (snd (call_made f_params rename args kwargs)) k =
         (if k \<in> set (map param_name (drop (length args) f_params)) \<and>
             k \<notin> set (map param_name (take (length args) f_params))
          then dict_get (apply_rename rename kwargs) k else None))) \<and>
   (\<not> list_ex (\<lambda>p. param_kind p = VAR_KEYWORD) f_params \<and> distinct (map param_name f_params) \<longrightarrow>
      map fst (snd (call_made f_params rename args kwargs)) =
        filter (\<lambda>k. dict_get (apply_rename rename kwargs) k \<noteq> None)
          (map param_name (drop (length args) f_params))) \<and>
   apply_rename None kwargs = kwargs \<and>
   apply_rename (Some []) kwargs = kwargs \<and>
   (\<forall>r rs. apply_rename (Some (r # rs)) kwargs = apply_rename (Some rs) (rename_key kwargs r)) \<and>
   (\<forall>old new k. distinct (map fst kwargs) \<longrightarrow>
      dict_get (rename_key kwargs (old, new)) k =
        (case dict_get kwargs old of
           None \<Rightarrow> dict_get kwargs k
         | Some v \<Rightarrow> if k = new then Some v else if k = old then None else dict_get kwargs k))"
proof (intro conjI allI impI)
  show "inject_dependencies f signature_f rename args kwargs =
     (case call_made (reference_params f signature_f) rename args kwargs of (a, kw) \<Rightarrow> call f a kw)"
    by (simp add: call_made_def inject_dependencies_def reference_params_def get_function_args_def
        wrapper_def Let_def)
  show "fst (call_made f_params rename args kwargs) = args"
    by (simp add: call_made_def wrapper_def Let_def)
next
  assume "list_ex (\<lambda>p. param_kind p = VAR_KEYWORD) f_params"
  then show "snd (call_made f_params rename args kwargs) = apply_rename rename kwargs"
    by (simp add: call_made_def wrapper_def Let_def)
next
  fix k
  assume "\<not> list_ex (\<lambda>p. param_kind p = VAR_KEYWORD) f_params"
  then show "dict_get (snd (call_made f_params rename args kwargs)) k =
         (if k \<in> set (map param_name (drop (length args) f_params)) \<and>
             k \<notin> set (map param_name (take (length args) f_params))
          then dict_get (apply_rename rename kwargs) k else None)"
    by (simp add: call_made_def wrapper_def Let_def dict_get_declared_only)
next
  assume h: "\<not> list_ex (\<lambda>p. param_kind p = VAR_KEYWORD) f_params \<and> distinct (map param_name f_params)"
  have "map param_name f_params =
      map param_name (take (length args) f_params) @ map param_name (drop (length args) f_params)"
    by (metis append_take_drop_id map_append)
  with h have "distinct (map param_name (take (length args) f_params) @
      map param_name (drop (length args) f_params))" by simp
  from keys_declared_only[OF this] h
  show "map fst (snd (call_made f_params rename args kwargs)) =
        filter (\<lambda>k. dict_get (apply_rename rename kwargs) k \<noteq> None)
          (map param_name (drop (length args) f_params))"
    by (simp add: call_made_def wrapper_def Let_def)
next
  show "apply_rename None kwargs = kwargs"
    by (simp add: apply_rename_def)
  show "apply_rename (Some []) kwargs = kwargs"
    by (simp add: apply_rename_def)
next
  fix r rs
  show "apply_rename (Some (r # rs)) kwargs = apply_rename (Some rs) (rename_key kwargs r)"
    by (simp add: apply_rename_def)
next
  fix old new k
  assume "distinct (map fst kwargs)"
  then show "dict_get (rename_key kwargs (old, new)) k =
        (case dict_get kwargs old of
           None \<Rightarrow> dict_get kwargs k
         | Some v \<Rightarrow> if k = new then Some v else if k = old then None else dict_get kwargs k)"
    by (rule dict_get_rename_key)
qed

lemma wrapper_forwards_by_position_example:
  "inject_dependencies (Callable Pair [] None)
     (Some (Callable Pair [] (Some (Callable Pair
       [\<lparr>param_name = ''x'', param_kind = POSITIONAL_OR_KEYWORD\<rparr>,
        \<lparr>param_name = ''training'', param_kind = POSITIONAL_OR_KEYWORD\<rparr>,
        \<lparr>param_name = ''rng'', param_kind = POSITIONAL_OR_KEYWORD\<rparr>] None))))
     (Some [(''key'', ''rng'')])
     [1::int]
     [(''x'', 5::int), (''states'', 2), (''key'', 7), (''training'', 1)]
   = ([1], [(''training'', 1), (''rng'', 7)]) \<and>
   inject_dependencies (Callable Pair
       [\<lparr>param_name = ''x'', param_kind = POSITIONAL_OR_KEYWORD\<rparr>,
        \<lparr>param_name = ''kwargs'', param_kind = VAR_KEYWORD\<rparr>] None)
     None None
     [1::int]
     [(''x'', 5::int), (''states'', 2)]
   = ([1], [(''x'', 5), (''states'', 2)])"
proof -
  let ?ps = "[\<lparr>param_name = ''x'', param_kind = POSITIONAL_OR_KEYWORD\<rparr>,
        \<lparr>param_name = ''training'', param_kind = POSITIONAL_OR_KEYWORD\<rparr>,
        \<lparr>param_name = ''rng'', param_kind = POSITIONAL_OR_KEYWORD\<rparr>]"
  let ?g = "Callable (Pair :: int list \<Rightarrow> (string, int) dict \<Rightarrow> _) [] (Some (Callable Pair ?ps None))"
  let ?qs = "[\<lparr>param_name = ''x'', param_kind = POSITIONAL_OR_KEYWORD\<rparr>,
        \<lparr>param_name = ''kwargs'', param_kind = VAR_KEYWORD\<rparr>]"
  have 1: "call_made (reference_params (Callable Pair [] None) (Some ?g)) (Some [(''key'', ''rng'')])
      [1::int] [(''x'', 5::int), (''states'', 2), (''key'', 7), (''training'', 1)]
      = ([1], [(''training'', 1), (''rng'', 7)])"
    by (simp add: call_made_def reference_params_def wrapper_def Let_def apply_rename_def
        rename_key_def declared_only_def)
  have 2: "call_made (reference_params (Callable Pair ?qs None) None) None
      [1::int] [(''x'', 5::int), (''states'', 2)] = ([1], [(''x'', 5), (''states'', 2)])"
    by (simp add: call_made_def reference_params_def wrapper_def Let_def apply_rename_def)
  have 3: "inject_dependencies (Callable Pair [] None) (Some ?g) (Some [(''key'', ''rng'')])
      [1::int] [(''x'', 5::int), (''states'', 2), (''key'', 7), (''training'', 1)]
      = ([1], [(''training'', 1), (''rng'', 7)])"
    using wrapper_forwards_by_position[where f = "Callable Pair [] None"
        and signature_f = "Some ?g" and rename = "Some [(''key'', ''rng'')]" and args = "[1]"
        and kwargs = "[(''x'', 5), (''states'', 2), (''key'', 7), (''training'', 1)]"
        and f_params = "[]", THEN conjunct1]
    by (simp only: 1 prod.case callable.sel)
  have 4: "inject_dependencies (Callable Pair ?qs None) None None
      [1::int] [(''x'', 5::int), (''states'', 2)] = ([1], [(''x'', 5), (''states'', 2)])"
    using wrapper_forwards_by_position[where f = "Callable Pair ?qs None"
        and signature_f = None and rename = None and args = "[1::int]"
        and kwargs = "[(''x'', 5::int), (''states'', 2)]"
        and f_params = "[]", THEN conjunct1]
    by (simp only: 2 prod.case callable.sel)
  from 3 4 show ?thesis by (rule conjI)
qed

text \<open>
  The words of the claim. \<open>bound_positionally\<close> gives the names that the first
  \<open>n\<close> positional arguments of a call bind, as Python binds them: the positional
  parameters in order, up to a \<open>*args\<close> parameter, which takes every positional
  argument left; a keyword-only parameter and a \<open>**kwargs\<close> parameter are never
  bound by a positional argument. \<open>declared_not_bound\<close> is the renamed bag
  restricted to the names the signature declares that no positional argument binds.
\<close>

fun bound_positionally :: "parameter list \<Rightarrow> nat \<Rightarrow> string list" where
  "bound_positionally [] n = []"
| "bound_positionally (p # ps) n =
     (if n = 0 then []
      else case param_kind p of
             POSITIONAL_ONLY \<Rightarrow> param_name p # bound_positionally ps (n - 1)
           | POSITIONAL_OR_KEYWORD \<Rightarrow> param_name p # bound_positionally ps (n - 1)
           | VAR_POSITIONAL \<Rightarrow> [param_name p]
           | KEYWORD_ONLY \<Rightarrow> []
           | VAR_KEYWORD \<Rightarrow> [])"

definition declared_not_bound ::
  "parameter list \<Rightarrow> (string, string) dict option \<Rightarrow> 'p list \<Rightarrow> (string, 'v) dict \<Rightarrow> (string, 'v) dict" where
  "declared_not_bound f_params rename args kwargs =
     filter (\<lambda>(k, v). k \<in> set (map param_name f_params) \<and>
                      k \<notin> set (bound_positionally f_params (length args)))
       (apply_rename rename kwargs)"

lemma bound_positionally_take:
  "list_all (\<lambda>p. param_kind p = POSITIONAL_ONLY \<or> param_kind p = POSITIONAL_OR_KEYWORD) (take n ps) \<Longrightarrow>
   bound_positionally ps n = map param_name (take n ps)"
proof (induction ps arbitrary: n)
  case Nil
  then show ?case by simp
next
  case (Cons p ps)
  show ?case
  proof (cases n)
    case 0
    then show ?thesis by simp
  next
    case (Suc m)
    with Cons.prems have k: "param_kind p = POSITIONAL_ONLY \<or> param_kind p = POSITIONAL_OR_KEYWORD"
      and r: "list_all (\<lambda>p. param_kind p = POSITIONAL_ONLY \<or> param_kind p = POSITIONAL_OR_KEYWORD) (take m ps)"
      by simp_all
    from Cons.IH[OF r] k Suc show ?thesis by auto
  qed
qed

lemma dict_get_filter_keys:
  "dict_get (filter (\<lambda>(k, v). P k) d) k = (if P k then dict_get d k else None)"
  by (induction d) auto

text \<open>
  Where the first \<open>len(args)\<close> declared parameters are all positional parameters,
  they are the parameters the positional arguments bind, and the wrapper passes what the
  claim says.
\<close>

lemma call_made_agrees_with_claim:
  assumes "\<not> list_ex (\<lambda>p. param_kind p = VAR_KEYWORD) f_params"
    and "distinct (map param_name f_params)"
    and "list_all (\<lambda>p. param_kind p = POSITIONAL_ONLY \<or> param_kind p = POSITIONAL_OR_KEYWORD)
           (take (length args) f_params)"
  shows "dict_get (snd (call_made f_params rename args kwargs)) k =
         dict_get (declared_not_bound f_params rename args kwargs) k"
proof -
  let ?n = "length args"
  have s: "set (map param_name f_params) =
      set (map param_name (take ?n f_params)) \<union> set (map param_name (drop ?n f_params))"
    by (metis append_take_drop_id map_append set_append)
  have "dict_get (snd (call_made f_params rename args kwargs)) k =
      (if k \<in> set (map param_name (drop ?n f_params)) \<and> k \<notin> set (map param_name (take ?n f_params))
       then dict_get (apply_rename rename kwargs) k else None)"
    using assms(1)
    by (simp add: call_made_def wrapper_def Let_def dict_get_declared_only)
  also have "\<dots> =
      (if k \<in> set (map param_name f_params) \<and> k \<notin> set (bound_positionally f_params ?n)
       then dict_get (apply_rename rename kwargs) k else None)"
    unfolding bound_positionally_take[OF assms(3)] s by auto
  also have "\<dots> = dict_get (declared_not_bound f_params rename args kwargs) k"
    unfolding declared_not_bound_def by (simp add: dict_get_filter_keys)
  finally show ?thesis .
qed

text \<open>
  C1. The call adapter forwards positional arguments by position and then the keyword
  arguments whose names the reference signature declares, after the renaming, leaving
  out the names already bound positionally. The code takes the first \<open>len(args)\<close>
  declared parameters for the bound ones, whatever their kind: for the reference
  signature \<open>(*args, a)\<close> and the call \<open>(1, 2, a=3)\<close> it counts the
  keyword-only \<open>a\<close> as bound and passes no keyword argument, where the claim has
  \<open>a=3\<close> forwarded; with one positional argument, \<open>(1, a=3)\<close>, the same
  keyword is forwarded.
\<close>

theorem inject_dependencies_drops_keyword_only:
  "inject_dependencies
     (Callable Pair [\<lparr>param_name = ''args'', param_kind = VAR_POSITIONAL\<rparr>,
                     \<lparr>param_name = ''a'', param_kind = KEYWORD_ONLY\<rparr>] None)
     None None [1::int, 2] [(''a'', 3::int)] = ([1, 2], []) \<and>
   declared_not_bound [\<lparr>param_name = ''args'', param_kind = VAR_POSITIONAL\<rparr>,
                       \<lparr>param_name = ''a'', param_kind = KEYWORD_ONLY\<rparr>]
     None [1::int, 2] [(''a'', 3::int)] = [(''a'', 3)] \<and>
   inject_dependencies
     (Callable Pair [\<lparr>param_name = ''args'', param_kind = VAR_POSITIONAL\<rparr>,
                     \<lparr>param_name = ''a'', param_kind = KEYWORD_ONLY\<rparr>] None)
     None None [1::int] [(''a'', 3::int)] = ([1], [(''a'', 3)])"
  by (simp add: inject_dependencies_def get_function_args_def wrapper_def Let_def
      apply_rename_def declared_only_def declared_not_bound_def)

section \<open>Counts and sizes of the summary\<close>

text \<open>
  \<^verbatim>\<open>
  def parameters_count(params):
      leaves = (x for x in jax.tree_leaves(params))
      return sum(x.size for x in leaves)

  def parameters_bytes(params):
      leaves = (x for x in jax.tree_leaves(params))
      return sum(x.size * x.dtype.itemsize for x in leaves)

  def format_count_and_size(params, add_padding=True):
      padding = r"{pad}" if add_padding else ""
      count = parameters_count(params)
      size = parameters_bytes(params)
      return f"[green]{count:,}[/]{padding}    {format_size(size)}" if count > 0 else ""

  def format_size(size):
      count, units = (
          (f"{size / 1e9 :,.1f}", "GB")
          if size > 1e9
          else (f"{size / 1e6 :,.1f}", "MB")
          if size > 1e6
          else (f"{size / 1e3 :,.1f}", "KB")
          if size > 1e3
          else (f"{size:,}", "B")
      )
      return f"[dim]{count} {units}[/dim]"
  \<close>
  The size is a Python \<open>int\<close>, a sum of products of non-negative integers.
  Python compares an \<open>int\<close> with a \<open>float\<close> exactly, and \<open>1e9\<close>,
  \<open>1e6\<close> and \<open>1e3\<close> are the integers they name, so the tests are comparisons of
  integers. The division is a division of binary64 floats: the \<open>int\<close> is first
  converted to the nearest float (an \<open>OverflowError\<close> when that is out of range),
  and the quotient is the float nearest to the exact quotient, ties to the even
  mantissa. The format \<open>,.1f\<close> prints the float's exact value rounded to one
  decimal, ties to even, with a comma between groups of three digits of the integer
  part; the format \<open>,\<close> prints an integer with the same commas.

  A positive finite float is kept as a pair \<open>(m, e)\<close> for the value
  \<open>m * 2 ^ e\<close>. \<open>rne_div a b\<close> is \<open>a / b\<close> rounded to the nearest integer,
  ties to even; \<open>bitlen\<close> is \<open>int.bit_length\<close>; \<open>round_ratio p q\<close> is the
  float nearest to \<open>p / q\<close> (for \<open>p \<ge> q > 0\<close>, a quotient of at least one: 53
  bits of mantissa are kept); \<open>float_of_int\<close> is the conversion of the size;
  \<open>float_div x d\<close> is the division of a float by one of the three constants;
  \<open>format_1f\<close> is the format \<open>,.1f\<close> and \<open>group_thousands\<close> the commas.
  An array is what the two sums read of it: its number of elements and the number of
  bytes of one element. \<open>tree_leaves\<close> stands for \<open>jax.tree_leaves\<close>, the leaves
  of the structure (the sums do not depend on their order).
\<close>

function group_thousands :: "string \<Rightarrow> string" where
  "group_thousands s =
     (if length s \<le> 3 then s
      else group_thousands (take (length s - 3) s) @ '','' @ drop (length s - 3) s)"
  by pat_completeness auto
termination
  by (relation "measure length") auto

declare group_thousands.simps [simp del]

definition rne_div :: "nat \<Rightarrow> nat \<Rightarrow> nat" where
  "rne_div a b =
     (let q = a div b; r = a mod b
      in if 2 * r < b then q
         else if b < 2 * r then q + 1
         else if even q then q else q + 1)"

fun bitlen :: "nat \<Rightarrow> nat" where
  "bitlen n = (if n = 0 then 0 else Suc (bitlen (n div 2)))"

declare bitlen.simps [simp del]

type_synonym float64 = "nat \<times> int"

definition round_ratio :: "nat \<Rightarrow> nat \<Rightarrow> float64" where
  "round_ratio p q =
     (let e = int (bitlen (p div q)) - 1;
          s = 52 - e
      in if 0 \<le> s then (rne_div (p * 2 ^ nat s) q, - s)
         else (rne_div p (q * 2 ^ nat (- s)), - s))"

datatype float_error = OverflowError

definition float_of_int :: "nat \<Rightarrow> float_error + float64" where
  "float_of_int n =
     (case round_ratio n 1 of (m, e) \<Rightarrow>
        if 0 \<le> e \<and> 2 ^ 1024 \<le> m * 2 ^ nat e then Inl OverflowError else Inr (m, e))"

definition float_div :: "float64 \<Rightarrow> nat \<Rightarrow> float64" where
  "float_div x d =
     (case x of (m, e) \<Rightarrow>
        if 0 \<le> e then round_ratio (m * 2 ^ nat e) d
        else round_ratio m (d * 2 ^ nat (- e)))"

definition format_1f :: "float64 \<Rightarrow> string" where
  "format_1f x =
     (case x of (m, e) \<Rightarrow>
        let tenths = (if 0 \<le> e then m * 2 ^ nat e * 10 else rne_div (m * 10) (2 ^ nat (- e)))
        in group_thousands (str_nat (tenths div 10)) @ ''.'' @ [digit_char (tenths mod 10)])"

definition format_size :: "nat \<Rightarrow> float_error + string" where
  "format_size nbytes =
     (case (if nbytes > 10 ^ 9 then
              (case float_of_int nbytes of
                 Inl err \<Rightarrow> Inl err
               | Inr x \<Rightarrow> Inr (format_1f (float_div x (10 ^ 9)), ''GB''))
            else if nbytes > 10 ^ 6 then
              (case float_of_int nbytes of
                 Inl err \<Rightarrow> Inl err
               | Inr x \<Rightarrow> Inr (format_1f (float_div x (10 ^ 6)), ''MB''))
            else if nbytes > 10 ^ 3 then
              (case float_of_int nbytes of
                 Inl err \<Rightarrow> Inl err
               | Inr x \<Rightarrow> Inr (format_1f (float_div x (10 ^ 3)), ''KB''))
            else Inr (group_thousands (str_nat nbytes), ''B'')) of
        Inl err \<Rightarrow> Inl err
      | Inr (count, units) \<Rightarrow> Inr (''[dim]'' @ count @ '' '' @ units @ ''[/dim]''))"

record array =
  arr_size :: nat
  arr_itemsize :: nat

definition tree_leaves :: "'a pytree \<Rightarrow> 'a list" where
  "tree_leaves params = map snd (leaf_paths params)"

definition parameters_count :: "array pytree \<Rightarrow> nat" where
  "parameters_count params = sum_list (map arr_size (tree_leaves params))"

definition parameters_bytes :: "array pytree \<Rightarrow> nat" where
  "parameters_bytes params = sum_list (map (\<lambda>x. arr_size x * arr_itemsize x) (tree_leaves params))"

definition format_count_and_size :: "array pytree \<Rightarrow> bool \<Rightarrow> float_error + string" where
  "format_count_and_size params add_padding =
     (let padding = (if add_padding then ''{pad}'' else '''');
          count = parameters_count params;
          nbytes = parameters_bytes params
      in if count > 0 then
           (case format_size nbytes of
              Inl err \<Rightarrow> Inl err
            | Inr s \<Rightarrow> Inr (''[green]'' @ group_thousands (str_nat count) @ ''[/]'' @ padding @ ''    '' @ s))
         else Inr '''')"

text \<open>
  A number with one decimal place: digits and commas, a point, one digit.
\<close>

definition one_decimal :: "string \<Rightarrow> bool" where
  "one_decimal c \<longleftrightarrow>
     (\<exists>ip d. c = ip @ ''.'' @ [digit_char d] \<and> d < 10 \<and> ip \<noteq> [] \<and> set ip \<subseteq> insert CHR '','' (set ''0123456789''))"

lemma digit_char_digit: "d < 10 \<Longrightarrow> digit_char d \<in> set ''0123456789''"
proof -
  assume "d < 10"
  then have "d < length ''0123456789''" by simp
  then show ?thesis unfolding digit_char_def by (rule nth_mem)
qed

lemma str_nat_digits: "set (str_nat n) \<subseteq> set ''0123456789''"
proof (induction n rule: str_nat.induct)
  case (1 n)
  show ?case
  proof (cases "n < 10")
    case True
    then show ?thesis using digit_char_digit[of n] by (simp add: str_nat.simps[of n])
  next
    case False
    have "n mod 10 < 10" by simp
    from digit_char_digit[OF this] "1.IH"[OF False] False show ?thesis
      by (simp add: str_nat.simps[of n])
  qed
qed

lemma group_thousands_chars: "set (group_thousands s) \<subseteq> set s \<union> {CHR '',''}"
proof (induction s rule: group_thousands.induct)
  case (1 s)
  show ?case
  proof (cases "length s \<le> 3")
    case True
    then show ?thesis by (subst group_thousands.simps) auto
  next
    case False
    have "set (take (length s - 3) s) \<subseteq> set s" "set (drop (length s - 3) s) \<subseteq> set s"
      by (auto dest: in_set_takeD in_set_dropD)
    with "1.IH"[OF False] False show ?thesis
      by (subst group_thousands.simps) auto
  qed
qed

lemma group_thousands_nonempty: "s \<noteq> [] \<Longrightarrow> group_thousands s \<noteq> []"
  by (subst group_thousands.simps) auto

lemma one_decimal_format_1f: "one_decimal (format_1f x)"
proof -
  obtain m e where x: "x = (m, e)" by (cases x)
  define tenths where "tenths = (if 0 \<le> e then m * 2 ^ nat e * 10 else rne_div (m * 10) (2 ^ nat (- e)))"
  let ?ip = "group_thousands (str_nat (tenths div 10))"
  have f: "format_1f x = ?ip @ ''.'' @ [digit_char (tenths mod 10)]"
    by (simp add: format_1f_def x tenths_def Let_def)
  define D where "D = set ''0123456789''"
  have "set ?ip \<subseteq> set (str_nat (tenths div 10)) \<union> {CHR '',''}"
    by (rule group_thousands_chars)
  moreover have "set (str_nat (tenths div 10)) \<subseteq> D"
    unfolding D_def by (rule str_nat_digits)
  ultimately have "set ?ip \<subseteq> insert CHR '','' D"
    by blast
  then have "set ?ip \<subseteq> insert CHR '','' (set ''0123456789'')"
    unfolding D_def .
  moreover have "?ip \<noteq> []"
    by (simp add: group_thousands_nonempty str_nat_nonempty)
  moreover have "tenths mod 10 < 10" by simp
  ultimately show ?thesis
    unfolding one_decimal_def f by blast
qed

lemma bitlen_upper: "n < 2 ^ bitlen n"
proof (induction n rule: bitlen.induct)
  case (1 n)
  show ?case
  proof (cases "n = 0")
    case True
    then show ?thesis by (simp add: bitlen.simps[of n])
  next
    case False
    from "1.IH"[OF False] have "n div 2 < 2 ^ bitlen (n div 2)" .
    then have "n < 2 * 2 ^ bitlen (n div 2)" by linarith
    with False show ?thesis by (simp add: bitlen.simps[of n])
  qed
qed

lemma bitlen_lower: "0 < n \<Longrightarrow> 2 ^ (bitlen n - 1) \<le> n"
proof (induction n rule: bitlen.induct)
  case (1 n)
  show ?case
  proof (cases "n div 2 = 0")
    case True
    with "1.prems" have "bitlen n = 1"
      by (simp add: bitlen.simps[of n] bitlen.simps[of 0])
    with "1.prems" show ?thesis by simp
  next
    case False
    then have p: "0 < n div 2" by simp
    from "1.prems" have n0: "n \<noteq> 0" by simp
    from "1.IH"[OF n0 p] have ih: "2 ^ (bitlen (n div 2) - 1) \<le> n div 2" .
    have b: "bitlen n = Suc (bitlen (n div 2))"
      using n0 by (simp add: bitlen.simps[of n])
    have "0 < bitlen (n div 2)"
      using False by (simp add: bitlen.simps[of "n div 2"])
    then have "2 ^ (bitlen n - 1) = 2 * 2 ^ (bitlen (n div 2) - 1)"
      unfolding b by (cases "bitlen (n div 2)") simp_all
    also have "\<dots> \<le> 2 * (n div 2)" using ih by simp
    also have "\<dots> \<le> n" by simp
    finally show ?thesis .
  qed
qed

lemma rne_div_le: "rne_div a b \<le> a div b + 1"
  by (simp add: rne_div_def Let_def)

lemma rne_div_one: "rne_div a 1 = a" "rne_div a (Suc 0) = a"
  by (simp_all add: rne_div_def Let_def)

lemma float_of_int_ok:
  assumes "n < 2 ^ 1023"
  shows "float_of_int n = Inr (round_ratio n 1)"
proof -
  obtain m e where r: "round_ratio n 1 = (m, e)" by (cases "round_ratio n 1")
  have "\<not> (0 \<le> e \<and> 2 ^ 1024 \<le> m * 2 ^ nat e)"
  proof
    assume o: "0 \<le> e \<and> 2 ^ 1024 \<le> m * 2 ^ nat e"
    have e: "e = int (bitlen n) - 53"
      using r by (auto simp: round_ratio_def Let_def split: if_splits)
    with o have b53: "53 \<le> bitlen n" by simp
    then have npos: "0 < n" by (cases "n = 0") (simp_all add: bitlen.simps[of 0])
    define k where "k = bitlen n - 53"
    have ke: "nat e = k" using e b53 by (simp add: k_def)
    have bl: "bitlen n \<le> 1023"
    proof (rule ccontr)
      assume "\<not> bitlen n \<le> 1023"
      then have "1023 \<le> bitlen n - 1" by simp
      then have "(2::nat) ^ 1023 \<le> 2 ^ (bitlen n - 1)"
        by (rule power_increasing) simp
      with bitlen_lower[OF npos] assms show False by simp
    qed
    have m: "m \<le> n div 2 ^ k + 1"
    proof (cases "k = 0")
      case True
      with r b53 have "m = n"
        by (auto simp: round_ratio_def Let_def rne_div_one k_def split: if_splits)
      with True show ?thesis by simp
    next
      case False
      then have "\<not> (0::int) \<le> 52 - (int (bitlen n) - 1)" by (simp add: k_def)
      with r have "m = rne_div n (2 ^ nat (- (52 - (int (bitlen n) - 1))))"
        by (auto simp: round_ratio_def Let_def)
      moreover have "nat (- (52 - (int (bitlen n) - 1))) = k"
        by (simp add: k_def)
      ultimately show ?thesis using rne_div_le[of n "2 ^ k"] by simp
    qed
    have "n < 2 ^ (k + 53)" using bitlen_upper[of n] b53 by (simp add: k_def)
    then have "n < 2 ^ 53 * 2 ^ k" by (simp add: power_add mult.commute)
    then have "n div 2 ^ k < 2 ^ 53"
      by (simp add: less_mult_imp_div_less)
    with m have "m \<le> 2 ^ 53" by simp
    then have "m * 2 ^ k \<le> 2 ^ 53 * 2 ^ k" by simp
    also have "\<dots> = 2 ^ bitlen n"
    proof -
      have "53 + k = bitlen n" using b53 by (simp add: k_def)
      then show ?thesis by (simp only: flip: power_add)
    qed
    also have "\<dots> \<le> 2 ^ 1023" using bl by (intro power_increasing) simp_all
    finally have "m * 2 ^ k \<le> 2 ^ 1023" .
    with o ke show False by simp
  qed
  with r show ?thesis by (simp add: float_of_int_def)
qed

lemma format_size_eval_KB: "format_1f (float_div (round_ratio 6000 (Suc 0)) 1000) = ''6.0''"
  by (simp add: round_ratio_def float_div_def format_1f_def rne_div_def Let_def bitlen.simps
      group_thousands.simps str_nat.simps digit_char_def)

lemma format_size_error:
  assumes "format_size nbytes = Inl e"
  shows "2 ^ 1023 \<le> nbytes"
proof (rule ccontr)
  assume "\<not> 2 ^ 1023 \<le> nbytes"
  then have "nbytes < 2 ^ 1023" by simp
  from float_of_int_ok[OF this] assms show False
    by (simp add: format_size_def split: if_splits)
qed

text \<open>
  C5. The size formatter chooses the unit by thresholds: a size strictly greater than
  \<open>10^9\<close> is rendered in GB, else one greater than \<open>10^6\<close> in MB, else one
  greater than \<open>10^3\<close> in KB, else in B; the number has one decimal place for GB,
  MB and KB and is the integer for B. The formatter fails only on a size of
  \<open>2^1023\<close> or more, which has no float. A block of 5 elements of 4 bytes is
  reported with count \<open>5\<close> and size \<open>20 B\<close>, a block of 1500 elements of 4
  bytes with size \<open>6.0 KB\<close>.
\<close>

theorem format_size_thresholds:
  "(10 ^ 9 < nbytes \<and> nbytes < 2 ^ 1023 \<longrightarrow>
      format_size nbytes =
        Inr (''[dim]'' @ format_1f (float_div (round_ratio nbytes 1) (10 ^ 9)) @ '' GB[/dim]'')) \<and>
   (10 ^ 6 < nbytes \<and> nbytes \<le> 10 ^ 9 \<longrightarrow>
      format_size nbytes =
        Inr (''[dim]'' @ format_1f (float_div (round_ratio nbytes 1) (10 ^ 6)) @ '' MB[/dim]'')) \<and>
   (10 ^ 3 < nbytes \<and> nbytes \<le> 10 ^ 6 \<longrightarrow>
      format_size nbytes =
        Inr (''[dim]'' @ format_1f (float_div (round_ratio nbytes 1) (10 ^ 3)) @ '' KB[/dim]'')) \<and>
   (nbytes \<le> 10 ^ 3 \<longrightarrow>
      format_size nbytes = Inr (''[dim]'' @ group_thousands (str_nat nbytes) @ '' B[/dim]'')) \<and>
   (\<forall>e. format_size nbytes = Inl e \<longrightarrow> 2 ^ 1023 \<le> nbytes) \<and>
   (\<forall>x. one_decimal (format_1f x)) \<and>
   set (group_thousands (str_nat nbytes)) \<subseteq> insert CHR '','' (set ''0123456789'') \<and>
   format_count_and_size (PDict [(SStr ''c1'', Leaf \<lparr>arr_size = 5, arr_itemsize = 4\<rparr>)]) True =
     Inr ''[green]5[/]{pad}    [dim]20 B[/dim]'' \<and>
   format_count_and_size (PDict [(SStr ''c1'', Leaf \<lparr>arr_size = 1500, arr_itemsize = 4\<rparr>)]) True =
     Inr ''[green]1,500[/]{pad}    [dim]6.0 KB[/dim]''"
proof (intro conjI impI allI)
  show "format_size nbytes =
        Inr (''[dim]'' @ format_1f (float_div (round_ratio nbytes 1) (10 ^ 9)) @ '' GB[/dim]'')"
    if h: "10 ^ 9 < nbytes \<and> nbytes < 2 ^ 1023"
  proof -
    from h have "float_of_int nbytes = Inr (round_ratio nbytes 1)"
      by (intro float_of_int_ok) simp
    with h show ?thesis by (simp add: format_size_def)
  qed
  show "format_size nbytes =
        Inr (''[dim]'' @ format_1f (float_div (round_ratio nbytes 1) (10 ^ 6)) @ '' MB[/dim]'')"
    if h: "10 ^ 6 < nbytes \<and> nbytes \<le> 10 ^ 9"
  proof -
    have "(10::nat) ^ 9 < 2 ^ 1023" by simp
    with h have "nbytes < 2 ^ 1023" by linarith
    then have "float_of_int nbytes = Inr (round_ratio nbytes 1)"
      by (rule float_of_int_ok)
    with h show ?thesis by (simp add: format_size_def)
  qed
  show "format_size nbytes =
        Inr (''[dim]'' @ format_1f (float_div (round_ratio nbytes 1) (10 ^ 3)) @ '' KB[/dim]'')"
    if h: "10 ^ 3 < nbytes \<and> nbytes \<le> 10 ^ 6"
  proof -
    have "(10::nat) ^ 6 < 2 ^ 1023" by simp
    with h have "nbytes < 2 ^ 1023" by linarith
    then have "float_of_int nbytes = Inr (round_ratio nbytes 1)"
      by (rule float_of_int_ok)
    with h show ?thesis by (simp add: format_size_def)
  qed
  show "format_size nbytes = Inr (''[dim]'' @ group_thousands (str_nat nbytes) @ '' B[/dim]'')"
    if "nbytes \<le> 10 ^ 3"
    using that by (simp add: format_size_def)
  show "2 ^ 1023 \<le> nbytes" if "format_size nbytes = Inl e" for e
    using that by (rule format_size_error)
  show "one_decimal (format_1f x)" for x
    by (rule one_decimal_format_1f)
  show "set (group_thousands (str_nat nbytes)) \<subseteq> insert CHR '','' (set ''0123456789'')"
  proof -
    define D where "D = set ''0123456789''"
    have "set (group_thousands (str_nat nbytes)) \<subseteq> set (str_nat nbytes) \<union> {CHR '',''}"
      by (rule group_thousands_chars)
    moreover have "set (str_nat nbytes) \<subseteq> D"
      unfolding D_def by (rule str_nat_digits)
    ultimately have "set (group_thousands (str_nat nbytes)) \<subseteq> insert CHR '','' D"
      by blast
    then show ?thesis unfolding D_def .
  qed
  show "format_count_and_size (PDict [(SStr ''c1'', Leaf \<lparr>arr_size = 5, arr_itemsize = 4\<rparr>)]) True =
     Inr ''[green]5[/]{pad}    [dim]20 B[/dim]''"
    by (simp add: format_count_and_size_def parameters_count_def parameters_bytes_def
        tree_leaves_def leaf_paths_def format_size_def Let_def group_thousands.simps
        str_nat.simps digit_char_def)
  have "float_of_int 6000 = Inr (round_ratio 6000 1)"
    by (rule float_of_int_ok) simp
  then have "format_size 6000 = Inr ''[dim]6.0 KB[/dim]''"
    by (simp add: format_size_def format_size_eval_KB)
  then show "format_count_and_size (PDict [(SStr ''c1'', Leaf \<lparr>arr_size = 1500, arr_itemsize = 4\<rparr>)]) True =
     Inr ''[green]1,500[/]{pad}    [dim]6.0 KB[/dim]''"
    by (simp add: format_count_and_size_def parameters_count_def parameters_bytes_def
        tree_leaves_def leaf_paths_def Let_def group_thousands.simps
        str_nat.simps digit_char_def)
qed

theorem format_size_thresholds_witness:
  "format_size 1234567 = Inr ''[dim]1.2 MB[/dim]'' \<and>
   format_size 1000 = Inr ''[dim]1,000 B[/dim]'' \<and>
   format_size 1050 = Inr ''[dim]1.1 KB[/dim]'' \<and>
   format_size 2500000000 = Inr ''[dim]2.5 GB[/dim]''"
proof -
  have 1: "format_1f (float_div (round_ratio 1234567 (Suc 0)) 1000000) = ''1.2''"
    by (simp add: round_ratio_def float_div_def format_1f_def rne_div_def Let_def bitlen.simps
        group_thousands.simps str_nat.simps digit_char_def)
  have 2: "group_thousands (str_nat 1000) = ''1,000''"
    by (simp add: group_thousands.simps str_nat.simps digit_char_def)
  have 3: "format_1f (float_div (round_ratio 1050 (Suc 0)) 1000) = ''1.1''"
    by (simp add: round_ratio_def float_div_def format_1f_def rne_div_def Let_def bitlen.simps
        group_thousands.simps str_nat.simps digit_char_def)
  have 4: "format_1f (float_div (round_ratio 2500000000 (Suc 0)) 1000000000) = ''2.5''"
    by (simp add: round_ratio_def float_div_def format_1f_def rne_div_def Let_def bitlen.simps
        group_thousands.simps str_nat.simps digit_char_def)
  from format_size_thresholds[of 1234567] format_size_thresholds[of 1000]
    format_size_thresholds[of 1050] format_size_thresholds[of 2500000000]
  show ?thesis by (simp add: 1 2 3 4)
qed

section \<open>Flattening and unflattening\<close>


































section \<open>The generalized module interface and its two adapters\<close>

text \<open>
  Modelled from the spec: the generalized module interface, the adapter for the
  imperative style (\<open>HaikuModule\<close>), the adapter for the declarative style
  (\<open>LinenModule\<close>) and the dispatch function \<open>generalize\<close> are not among the
  source files; only their tests are. A generalized module has the two operations
  \<open>init(rng)(x)\<close> and \<open>apply(params, states, rng, training)(x)\<close>, each
  returning the output with a container of parameters and a container of states, or
  failing with one of the errors of the spec. A container maps paths to values. The
  numbers of the scenario (3.0, 2.0, 10.0 and their products) are small integers, which
  floats represent and multiply exactly; they are modelled as integers.
\<close>

datatype module_error =
  UnsupportedModuleError | UninitializedModuleError | MissingParameterError | ShapeMismatchError

type_synonym rng = nat

type_synonym container = "(string list, int) dict"

record generalized_module =
  gm_init :: "rng \<Rightarrow> int \<Rightarrow> module_error + (int \<times> container \<times> container)"
  gm_apply :: "container \<Rightarrow> container \<Rightarrow> rng \<Rightarrow> bool \<Rightarrow> int \<Rightarrow>
               module_error + (int \<times> container \<times> container)"

text \<open>
  Modelled from the spec: a module of the imperative style is a computation that, during
  one traced call, registers named parameters and named state values (each with an
  initializer), may set a state value, and returns an output. While initializing, a
  registration of a name not yet known records the initializer's value; the initial
  values of the states are kept apart from the current ones, which \<open>set state\<close>
  changes. While applying, a registration reads the value supplied by the caller, and a
  name that is absent is a \<open>MissingParameterError\<close>.
\<close>

record hk_store =
  hk_params :: container
  hk_initial :: container
  hk_current :: container

datatype hk_prog =
    HkReturn int
  | HkGetState "string list" "rng \<Rightarrow> int" "int \<Rightarrow> hk_prog"
  | HkGetParameter "string list" "rng \<Rightarrow> int" "int \<Rightarrow> hk_prog"
  | HkSetState "string list" int hk_prog

primrec hk_trace :: "hk_prog \<Rightarrow> bool \<Rightarrow> rng \<Rightarrow> hk_store \<Rightarrow> module_error + (int \<times> hk_store)" where
  "hk_trace (HkReturn out) initializing rng s = Inr (out, s)"
| "hk_trace (HkGetState name init k) initializing rng s =
     (case dict_get (hk_current s) name of
        Some v \<Rightarrow> hk_trace (k v) initializing rng s
      | None \<Rightarrow>
          if initializing
          then hk_trace (k (init rng)) initializing rng
                 (s\<lparr>hk_initial := dict_setitem (hk_initial s) name (init rng),
                    hk_current := dict_setitem (hk_current s) name (init rng)\<rparr>)
          else Inl MissingParameterError)"
| "hk_trace (HkGetParameter name init k) initializing rng s =
     (case dict_get (hk_params s) name of
        Some v \<Rightarrow> hk_trace (k v) initializing rng s
      | None \<Rightarrow>
          if initializing
          then hk_trace (k (init rng)) initializing rng
                 (s\<lparr>hk_params := dict_setitem (hk_params s) name (init rng)\<rparr>)
          else Inl MissingParameterError)"
| "hk_trace (HkSetState name v rest) initializing rng s =
     hk_trace rest initializing rng (s\<lparr>hk_current := dict_setitem (hk_current s) name v\<rparr>)"

text \<open>
  Modelled from the spec: the adapter of the imperative style. \<open>init\<close> runs one
  trace from empty collections and returns the registered parameters and the registered
  (initial) states; \<open>apply\<close> runs the trace on the supplied parameters and states
  and returns the states as the trace left them.
\<close>

definition HaikuModule :: "(int \<Rightarrow> hk_prog) \<Rightarrow> generalized_module" where
  "HaikuModule f =
     \<lparr>gm_init = (\<lambda>rng x.
        case hk_trace (f x) True rng \<lparr>hk_params = [], hk_initial = [], hk_current = []\<rparr> of
          Inl e \<Rightarrow> Inl e
        | Inr (out, s) \<Rightarrow> Inr (out, hk_params s, hk_initial s)),
      gm_apply = (\<lambda>params states rng training x.
        case hk_trace (f x) False rng
               \<lparr>hk_params = params, hk_initial = states, hk_current = states\<rparr> of
          Inl e \<Rightarrow> Inl e
        | Inr (out, s) \<Rightarrow> Inr (out, hk_params s, hk_current s))\<rparr>"

text \<open>
  Modelled from the spec: a module of the declarative style declares its parameters
  inside the call (bound on the first call) and declares further variables into named
  collections, can ask whether a variable exists already, and can assign to a variable.
\<close>

record ln_store =
  ln_params :: container
  ln_variables :: container

datatype ln_prog =
    LnReturn int
  | LnHasVariable string string "bool \<Rightarrow> ln_prog"
  | LnVariable string string int "int \<Rightarrow> ln_prog"
  | LnParam string "rng \<Rightarrow> int" "int \<Rightarrow> ln_prog"
  | LnAssign string string int ln_prog

primrec ln_trace :: "ln_prog \<Rightarrow> bool \<Rightarrow> rng \<Rightarrow> ln_store \<Rightarrow> module_error + (int \<times> ln_store)" where
  "ln_trace (LnReturn out) initializing rng s = Inr (out, s)"
| "ln_trace (LnHasVariable col name k) initializing rng s =
     ln_trace (k (dict_get (ln_variables s) [col, name] \<noteq> None)) initializing rng s"
| "ln_trace (LnVariable col name init k) initializing rng s =
     (case dict_get (ln_variables s) [col, name] of
        Some v \<Rightarrow> ln_trace (k v) initializing rng s
      | None \<Rightarrow>
          if initializing
          then ln_trace (k init) initializing rng
                 (s\<lparr>ln_variables := dict_setitem (ln_variables s) [col, name] init\<rparr>)
          else Inl MissingParameterError)"
| "ln_trace (LnParam name init k) initializing rng s =
     (case dict_get (ln_params s) [name] of
        Some v \<Rightarrow> ln_trace (k v) initializing rng s
      | None \<Rightarrow>
          if initializing
          then ln_trace (k (init rng)) initializing rng
                 (s\<lparr>ln_params := dict_setitem (ln_params s) [name] (init rng)\<rparr>)
          else Inl MissingParameterError)"
| "ln_trace (LnAssign col name v rest) initializing rng s =
     ln_trace rest initializing rng
       (s\<lparr>ln_variables := dict_setitem (ln_variables s) [col, name] v\<rparr>)"

text \<open>
  Modelled from the spec: the adapter of the declarative style. \<open>init\<close> binds the
  parameters and the declared variables once, from empty collections; \<open>apply\<close>
  binds the supplied values, lets the collections be assigned to during the call, and
  returns them.
\<close>

definition LinenModule :: "(int \<Rightarrow> ln_prog) \<Rightarrow> generalized_module" where
  "LinenModule m =
     \<lparr>gm_init = (\<lambda>rng x.
        case ln_trace (m x) True rng \<lparr>ln_params = [], ln_variables = []\<rparr> of
          Inl e \<Rightarrow> Inl e
        | Inr (out, s) \<Rightarrow> Inr (out, ln_params s, ln_variables s)),
      gm_apply = (\<lambda>params states rng training x.
        case ln_trace (m x) False rng \<lparr>ln_params = params, ln_variables = states\<rparr> of
          Inl e \<Rightarrow> Inl e
        | Inr (out, s) \<Rightarrow> Inr (out, ln_params s, ln_variables s))\<rparr>"

text \<open>
  Modelled from the spec: the dispatch function looks at the capability markers of a
  module value in priority order (it satisfies the interface already, then the marker of
  the imperative style, then the marker of the declarative style); the first match wins,
  a value that already satisfies the interface is returned as it is, and a value with no
  marker is an \<open>UnsupportedModuleError\<close>.
\<close>

record module_value =
  as_generalized :: "generalized_module option"
  as_haiku :: "(int \<Rightarrow> hk_prog) option"
  as_linen :: "(int \<Rightarrow> ln_prog) option"

definition generalized_value :: "generalized_module \<Rightarrow> module_value" where
  "generalized_value g = \<lparr>as_generalized = Some g, as_haiku = None, as_linen = None\<rparr>"

definition generalize :: "module_value \<Rightarrow> module_error + module_value" where
  "generalize m =
     (case as_generalized m of
        Some g \<Rightarrow> Inr m
      | None \<Rightarrow>
          (case as_haiku m of
             Some f \<Rightarrow> Inr (generalized_value (HaikuModule f))
           | None \<Rightarrow>
               (case as_linen m of
                  Some l \<Rightarrow> Inr (generalized_value (LinenModule l))
                | None \<Rightarrow> Inl UnsupportedModuleError)))"


definition linen_M :: "int \<Rightarrow> ln_prog" where
  "linen_M x =
     LnHasVariable ''batch_stats'' ''n'' (\<lambda>initialized.
     LnVariable ''batch_stats'' ''n'' 0 (\<lambda>n.
     LnParam ''w'' (\<lambda>key. 2) (\<lambda>w.
     if initialized then LnAssign ''batch_stats'' ''n'' (n + 1) (LnReturn (x * w))
     else LnReturn (x * w))))"


text \<open>
  C8. The dispatch function is idempotent: when \<open>generalize m\<close> succeeds with
  \<open>g\<close>, \<open>generalize g\<close> is \<open>g\<close> again (so \<open>init\<close> and
  \<open>apply\<close> are the same); a value that satisfies the generalized interface already
  is returned unchanged; the function is a pure classification, whose only failure is
  \<open>UnsupportedModuleError\<close> on a value with no capability marker.
\<close>

theorem generalize_idempotent:
  "(generalize m = Inr g \<longrightarrow> generalize g = Inr g) \<and>
   (as_generalized m \<noteq> None \<longrightarrow> generalize m = Inr m) \<and>
   (generalize m = Inr g \<longrightarrow> as_generalized g \<noteq> None) \<and>
   (generalize m = Inl e \<longrightarrow>
      e = UnsupportedModuleError \<and> as_generalized m = None \<and> as_haiku m = None \<and> as_linen m = None)"
  by (auto simp: generalize_def generalized_value_def split: option.splits)

theorem generalize_idempotent_witness:
  "generalize \<lparr>as_generalized = None, as_haiku = None, as_linen = Some linen_M\<rparr> =
     Inr (generalized_value (LinenModule linen_M)) \<and>
   generalize (generalized_value (LinenModule linen_M)) = Inr (generalized_value (LinenModule linen_M)) \<and>
   generalize \<lparr>as_generalized = None, as_haiku = None, as_linen = None\<rparr> = Inl UnsupportedModuleError"
proof -
  let ?m = "\<lparr>as_generalized = None, as_haiku = None, as_linen = Some linen_M\<rparr>"
  have 1: "generalize ?m = Inr (generalized_value (LinenModule linen_M))"
    by (simp add: generalize_def)
  have 3: "generalize \<lparr>as_generalized = None, as_haiku = None, as_linen = None\<rparr> = Inl UnsupportedModuleError"
    by (simp add: generalize_def)
  from generalize_idempotent[of ?m "generalized_value (LinenModule linen_M)"] 1
  have 2: "generalize (generalized_value (LinenModule linen_M)) = Inr (generalized_value (LinenModule linen_M))"
    by blast
  from 1 2 3 show ?thesis by blast
qed

end
